theory Spec2Isabelle
  imports Main
begin

section \<open>Python values used by the label converters\<close>

text \<open>
  Strings are lists of characters. The model covers ASCII text: \<open>str_lower\<close> maps \<open>A\<close>..\<open>Z\<close>
  to \<open>a\<close>..\<open>z\<close> and leaves every other character alone, and whitespace is the ASCII
  whitespace of Python's \<open>str.strip\<close>. A dict is an association list in insertion order
  whose keys are distinct; a dict that is only looked up is a map. An exception is a value
  of type \<open>error\<close>, returned on the left of a sum.
\<close>

datatype error = KeyError | ValueError | DatasetError | OtherError

definition LABEL_SEPARATOR :: string where
  "LABEL_SEPARATOR = [CHR 0x0A]"

definition LABEL2ENTITY_SEPARATOR :: string where
  "LABEL2ENTITY_SEPARATOR = ''->''"

definition ENTITY_SEPARATOR :: string where
  "ENTITY_SEPARATOR = '', ''"

subsection \<open>String methods\<close>

text \<open>\<open>s.startswith(p)\<close>\<close>

fun startswith :: "'a list \<Rightarrow> 'a list \<Rightarrow> bool" where
  "startswith s [] = True"
| "startswith [] (p # ps) = False"
| "startswith (c # cs) (p # ps) = (c = p \<and> startswith cs ps)"

text \<open>\<open>s.find(sub)\<close>, with \<open>None\<close> for Python's -1: the least index at which \<open>sub\<close> starts.\<close>

fun find_sub :: "'a list \<Rightarrow> 'a list \<Rightarrow> nat option" where
  "find_sub sub [] = (if sub = [] then Some 0 else None)"
| "find_sub sub (c # cs) =
     (if startswith (c # cs) sub then Some 0 else map_option Suc (find_sub sub cs))"

text \<open>\<open>s[start:end]\<close> for non-negative indices.\<close>

definition slice :: "'a list \<Rightarrow> nat \<Rightarrow> nat \<Rightarrow> 'a list" where
  "slice s start end = take (end - start) (drop start s)"

text \<open>\<open>sep.join(parts)\<close>\<close>

fun join :: "'a list \<Rightarrow> 'a list list \<Rightarrow> 'a list" where
  "join sep [] = []"
| "join sep [p] = p"
| "join sep (p # q # ps) = p @ sep @ join sep (q # ps)"

text \<open>\<open>s.split(sep, 1)\<close> for a non-empty separator: cut at the first occurrence only.\<close>

definition str_split1 :: "'a list \<Rightarrow> 'a list \<Rightarrow> 'a list list" where
  "str_split1 sep s =
     (case find_sub sep s of
        None \<Rightarrow> [s]
      | Some i \<Rightarrow> [take i s, drop (i + length sep) s])"

text \<open>
  \<open>s.split(sep)\<close>: cut at every occurrence of the separator, found from left to right
  without overlap. The converters only split at the three separator constants; for the
  empty separator, where Python raises, the model returns the string uncut.
\<close>

function str_split :: "'a list \<Rightarrow> 'a list \<Rightarrow> 'a list list" where
  "str_split sep s =
     (case find_sub sep s of
        None \<Rightarrow> [s]
      | Some i \<Rightarrow>
          if sep = [] then [s] else take i s # str_split sep (drop (i + length sep) s))"
  by pat_completeness auto
termination
proof (relation "measure (\<lambda>(sep, s). length s)")
  fix sep s :: "'a list" and i :: nat
  assume "find_sub sep s = Some i" and "sep \<noteq> []"
  then show "((sep, drop (i + length sep) s), (sep, s)) \<in> measure (\<lambda>(sep, s). length s)"
    by (cases s) auto
qed simp

declare str_split.simps [simp del]

text \<open>
  \<open>s.replace(old, new)\<close> for a non-empty \<open>old\<close>: every occurrence, found from left to
  right without overlap, is replaced. (The converter only replaces \<open>"B-"\<close> and \<open>"I-"\<close>.)
\<close>

fun str_replace :: "'a list \<Rightarrow> 'a list \<Rightarrow> 'a list \<Rightarrow> 'a list" where
  "str_replace old new [] = []"
| "str_replace old new (c # cs) =
     (if old \<noteq> [] \<and> startswith (c # cs) old
      then new @ str_replace old new (drop (length old) (c # cs))
      else c # str_replace old new cs)"

text \<open>\<open>s.lower()\<close> and \<open>s.strip()\<close> on ASCII text.\<close>

definition lower_char :: "char \<Rightarrow> char" where
  "lower_char c =
     (case map_of (zip ''ABCDEFGHIJKLMNOPQRSTUVWXYZ'' ''abcdefghijklmnopqrstuvwxyz'') c of
        Some d \<Rightarrow> d
      | None \<Rightarrow> c)"

definition str_lower :: "string \<Rightarrow> string" where
  "str_lower s = map lower_char s"

definition is_space :: "char \<Rightarrow> bool" where
  "is_space c \<longleftrightarrow>
     c \<in> set [CHR 0x09, CHR 0x0A, CHR 0x0B, CHR 0x0C, CHR 0x0D,
               CHR 0x1C, CHR 0x1D, CHR 0x1E, CHR 0x1F, CHR 0x20]"

definition str_strip :: "string \<Rightarrow> string" where
  "str_strip s = rev (dropWhile is_space (rev (dropWhile is_space s)))"

subsection \<open>Lists, tuples and dicts\<close>

text \<open>Tuple unpacking \<open>a, b = xs\<close>: a list of any other length raises ValueError.\<close>

fun unpack2 :: "'a list \<Rightarrow> error + 'a \<times> 'a" where
  "unpack2 [a, b] = Inr (a, b)"
| "unpack2 xs = Inl ValueError"

text \<open>\<open>xs.remove(x)\<close>: the first occurrence goes; ValueError when there is none.\<close>

fun list_remove :: "'a list \<Rightarrow> 'a \<Rightarrow> error + 'a list" where
  "list_remove [] x = Inl ValueError"
| "list_remove (y # ys) x =
     (if y = x then Inr ys
      else (case list_remove ys x of Inl e \<Rightarrow> Inl e | Inr zs \<Rightarrow> Inr (y # zs)))"

text \<open>A comprehension whose body may raise: the first exception ends it.\<close>

fun map_err :: "('a \<Rightarrow> error + 'b) \<Rightarrow> 'a list \<Rightarrow> error + 'b list" where
  "map_err f [] = Inr []"
| "map_err f (x # xs) =
     (case f x of
        Inl e \<Rightarrow> Inl e
      | Inr y \<Rightarrow> (case map_err f xs of Inl e \<Rightarrow> Inl e | Inr ys \<Rightarrow> Inr (y # ys)))"

text \<open>\<open>d[k] = v\<close>: an existing key keeps its position, a new key goes to the end.\<close>

fun dict_set :: "('k \<times> 'v) list \<Rightarrow> 'k \<Rightarrow> 'v \<Rightarrow> ('k \<times> 'v) list" where
  "dict_set [] k v = [(k, v)]"
| "dict_set ((k', v') # d) k v =
     (if k' = k then (k', v) # d else (k', v') # dict_set d k v)"

text \<open>\<open>d[k]\<close>: a missing key raises KeyError.\<close>

definition dict_get :: "('k \<times> 'v) list \<Rightarrow> 'k \<Rightarrow> error + 'v" where
  "dict_get d k = (case map_of d k of None \<Rightarrow> Inl KeyError | Some v \<Rightarrow> Inr v)"

definition map_get :: "('k \<rightharpoonup> 'v) \<Rightarrow> 'k \<Rightarrow> error + 'v" where
  "map_get d k = (case d k of None \<Rightarrow> Inl KeyError | Some v \<Rightarrow> Inr v)"

text \<open>\<open>d.setdefault(k, []).append(x)\<close>\<close>

fun setdefault_append :: "('k \<times> 'v list) list \<Rightarrow> 'k \<Rightarrow> 'v \<Rightarrow> ('k \<times> 'v list) list" where
  "setdefault_append [] k x = [(k, [x])]"
| "setdefault_append ((k', vs) # d) k x =
     (if k' = k then (k', vs @ [x]) # d else (k', vs) # setdefault_append d k x)"

section \<open>The external collaborators\<close>

text \<open>
  A span is \<open>(start, end, entity_type)\<close> over the characters of a text. The tag-scheme
  library and the tokenizer are not part of the repository: the converters take them as a
  record of functions over an abstract document type. Each field stands for the library
  function of the same name (\<open>text_of\<close> for \<open>doc.text\<close>, \<open>words_of\<close> for
  \<open>[word.text for word in doc]\<close>); the functions that can raise return a sum.
\<close>

type_synonym span = "nat \<times> nat \<times> string"

record 'doc bridge =
  iob_to_biluo :: "string list \<Rightarrow> error + string list"
  Doc :: "string list \<Rightarrow> 'doc"
  text_of :: "'doc \<Rightarrow> string"
  words_of :: "'doc \<Rightarrow> string list"
  biluo_tags_to_offsets :: "'doc \<Rightarrow> string list \<Rightarrow> error + span list"
  nlp :: "string \<Rightarrow> 'doc"
  offsets_to_biluo_tags :: "'doc \<Rightarrow> span list \<Rightarrow> error + string list"
  biluo_to_iob :: "string list \<Rightarrow> error + string list"

text \<open>
  A dataset is a list of rows. A row of the token-classification dataset is
  \<open>(tokens, labels, rest)\<close> and a row of the prompting dataset is \<open>(text, label string, rest)\<close>,
  where \<open>rest\<close> stands for the columns the converters do not touch.
\<close>

section \<open>The label remapper\<close>

text \<open>The body of the loop of \<open>replace_token_labels\<close> for one tag.\<close>

definition replace_tag :: "(string \<rightharpoonup> string) \<Rightarrow> string \<Rightarrow> error + string" where
  "replace_tag expanded_labels tag =
     (if startswith tag ''B-'' \<or> startswith tag ''I-'' then
        (case unpack2 (str_split1 ''-'' tag) of
           Inl e \<Rightarrow> Inl e
         | Inr (prefix, label) \<Rightarrow>
             (case expanded_labels label of
                Some new_label \<Rightarrow> Inr (prefix @ ''-'' @ new_label)
              | None \<Rightarrow> Inr tag))
      else Inr tag)"

fun replace_loop ::
  "(string \<rightharpoonup> string) \<Rightarrow> ('k \<times> string) list \<Rightarrow> ('k \<times> string) list \<Rightarrow> error + ('k \<times> string) list"
where
  "replace_loop expanded_labels [] replaced_id2label = Inr replaced_id2label"
| "replace_loop expanded_labels ((idx, tag) # items) replaced_id2label =
     (case replace_tag expanded_labels tag of
        Inl e \<Rightarrow> Inl e
      | Inr new_tag \<Rightarrow>
          replace_loop expanded_labels items (dict_set replaced_id2label idx new_tag))"

definition replace_token_labels ::
  "('k \<times> string) list \<Rightarrow> (string \<rightharpoonup> string) \<Rightarrow> error + ('k \<times> string) list"
where
  "replace_token_labels id2label expanded_labels = replace_loop expanded_labels id2label []"

section \<open>The forward converter\<close>

text \<open>
  \<open>label_options\<close>: the set comprehension over the values of \<open>id2label\<close>, turned into a
  list, from which \<open>"O"\<close> is removed. Python fixes no order for the elements of a set;
  the model lists them in the order of \<open>remdups\<close>, and only the set of the result means
  anything.
\<close>

definition strip_bio :: "string \<Rightarrow> string" where
  "strip_bio label = str_replace ''I-'' '''' (str_replace ''B-'' '''' label)"

definition label_options_of :: "('k \<times> string) list \<Rightarrow> error + string list" where
  "label_options_of id2label = list_remove (remdups (map strip_bio (map snd id2label))) ''O''"

text \<open>The callback \<open>labels_to_spans\<close> of \<open>token_labels_to_spans\<close>, for one example.\<close>

definition group_spans :: "string \<Rightarrow> span list \<Rightarrow> (string \<times> string list) list" where
  "group_spans text offsets =
     fold (\<lambda>(start, end, label) span_labels.
             setdefault_append span_labels label (slice text start end)) offsets []"

definition format_spans :: "(string \<times> string list) list \<Rightarrow> string" where
  "format_spans span_labels =
     join LABEL_SEPARATOR
       (map (\<lambda>(k, v). k @ '' '' @ LABEL2ENTITY_SEPARATOR @ '' '' @ v)
          (map (\<lambda>(k, v). (k, join ENTITY_SEPARATOR v)) span_labels))"

definition labels_to_spans ::
  "'doc bridge \<Rightarrow> ('k \<times> string) list \<Rightarrow> string list \<times> 'k list \<Rightarrow> error + string \<times> string"
where
  "labels_to_spans br id2label examples =
     (case examples of (tokens, labels) \<Rightarrow>
       (case map_err (dict_get id2label) labels of
          Inl e \<Rightarrow> Inl e
        | Inr bio_tags \<Rightarrow>
            (case iob_to_biluo br bio_tags of
               Inl e \<Rightarrow> Inl e
             | Inr bilou_tags \<Rightarrow>
                 (let doc = Doc br tokens in
                  (case biluo_tags_to_offsets br doc bilou_tags of
                     Inl e \<Rightarrow> Inl e
                   | Inr offsets \<Rightarrow>
                       Inr (text_of br doc,
                            format_spans (group_spans (text_of br doc) offsets)))))))"

text \<open>
  \<open>token_labels_to_spans\<close>: the label options are computed first, then the callback is
  mapped over the rows; the first exception ends the call. On a dataset without rows the
  map returns the dataset as it is, so the column of the label strings does not exist
  and its renaming raises ValueError.
\<close>

definition token_labels_to_spans ::
  "'doc bridge \<Rightarrow> (string list \<times> 'k list \<times> 'r) list \<Rightarrow> ('k \<times> string) list
     \<Rightarrow> error + (string \<times> string \<times> 'r) list \<times> string list"
where
  "token_labels_to_spans br dataset id2label =
     (case label_options_of id2label of
        Inl e \<Rightarrow> Inl e
      | Inr label_options \<Rightarrow>
          if dataset = [] then Inl ValueError
          else
            (case map_err (\<lambda>(tokens, labels, rest).
                     case labels_to_spans br id2label (tokens, labels) of
                       Inl e \<Rightarrow> Inl e
                     | Inr (text, label) \<Rightarrow> Inr (text, label, rest)) dataset of
               Inl e \<Rightarrow> Inl e
             | Inr dataset' \<Rightarrow> Inr (dataset', label_options)))"

section \<open>The backward converter\<close>

text \<open>\<open>label2id = {v: k for k, v in id2label.items()}\<close>: of two ids of one tag the later wins.\<close>

definition label2id_of :: "('k \<times> string) list \<Rightarrow> (string \<rightharpoonup> 'k)" where
  "label2id_of id2label = fold (\<lambda>(k, v) label2id. label2id(v \<mapsto> k)) id2label Map.empty"

text \<open>
  The body of \<open>for entity in entities\<close>: the pattern is the escaped entity, so the search
  is a search for the entity as a literal substring of the lower-cased text; a match
  object is always true.
\<close>

definition entity_spans :: "string \<Rightarrow> string \<Rightarrow> string \<Rightarrow> span list" where
  "entity_spans text label entity =
     (case find_sub entity (str_lower text) of
        Some i \<Rightarrow> [(i, i + length entity, label)]
      | None \<Rightarrow> [])"

text \<open>The body of \<open>for label_and_entities in ...\<close>: the spans one line adds.\<close>

definition line_spans :: "string \<Rightarrow> string \<Rightarrow> error + span list" where
  "line_spans text label_and_entities =
     (case unpack2 (str_split LABEL2ENTITY_SEPARATOR label_and_entities) of
        Inl e \<Rightarrow> Inl e
      | Inr (label, entities) \<Rightarrow>
          Inr (concat (map (entity_spans text (str_strip label))
                 (map (\<lambda>entity. str_lower (str_strip entity))
                    (str_split ENTITY_SEPARATOR entities)))))"

definition collect_spans :: "string \<Rightarrow> string \<Rightarrow> error + span list" where
  "collect_spans text str_label =
     (case map_err (line_spans text) (str_split LABEL_SEPARATOR str_label) of
        Inl e \<Rightarrow> Inl e
      | Inr spanss \<Rightarrow> Inr (concat spanss))"

text \<open>\<open>biluo_to_iob(offsets_to_biluo_tags(doc, spans))\<close>\<close>

definition bio_tags_of :: "'doc bridge \<Rightarrow> 'doc \<Rightarrow> span list \<Rightarrow> error + string list" where
  "bio_tags_of br doc spans =
     (case offsets_to_biluo_tags br doc spans of
        Inl e \<Rightarrow> Inl e
      | Inr biluo \<Rightarrow> biluo_to_iob br biluo)"

text \<open>
  One turn of the loop over the batch for an example whose label string is not empty:
  the token list and the tag list appended for it. Only a ValueError of the tag
  computation is caught.
\<close>

definition convert_example ::
  "'doc bridge \<Rightarrow> string \<Rightarrow> string \<Rightarrow> error + string list \<times> string list"
where
  "convert_example br text str_label =
     (case collect_spans text str_label of
        Inl e \<Rightarrow> Inl e
      | Inr spans \<Rightarrow>
          (let doc = nlp br text in
           (case bio_tags_of br doc spans of
              Inr tags \<Rightarrow> Inr (words_of br doc, tags)
            | Inl ValueError \<Rightarrow> Inr ([], [])
            | Inl e \<Rightarrow> Inl e)))"

text \<open>
  The loop over the batch: an example with an empty label string is skipped and appends
  nothing. The result is the pair of lists \<open>(tokens, bio_tags)\<close>.
\<close>

fun batch_loop ::
  "'doc bridge \<Rightarrow> (string \<times> string) list \<Rightarrow> error + string list list \<times> string list list"
where
  "batch_loop br [] = Inr ([], [])"
| "batch_loop br ((text, str_label) # rest) =
     (if str_label = [] then batch_loop br rest
      else
        (case convert_example br text str_label of
           Inl e \<Rightarrow> Inl e
         | Inr (toks, tags) \<Rightarrow>
             (case batch_loop br rest of
                Inl e \<Rightarrow> Inl e
              | Inr (tokens, bio_tags) \<Rightarrow> Inr (toks # tokens, tags # bio_tags))))"

text \<open>
  The callback \<open>labels_to_spans\<close> of \<open>spans_to_token_labels\<close>, on a batch given by its
  two columns: it returns the new token column and the new tag-id column.
\<close>

definition labels_to_spans_batch ::
  "'doc bridge \<Rightarrow> (string \<rightharpoonup> 'k) \<Rightarrow> string list \<Rightarrow> string list
     \<Rightarrow> error + string list list \<times> 'k list list"
where
  "labels_to_spans_batch br label2id texts str_labels =
     (case batch_loop br (zip texts str_labels) of
        Inl e \<Rightarrow> Inl e
      | Inr (tokens, bio_tags) \<Rightarrow>
          (case map_err (map_err (map_get label2id)) bio_tags of
             Inl e \<Rightarrow> Inl e
           | Inr ids \<Rightarrow> Inr (tokens, ids)))"

text \<open>
  The dataset library hands the rows to a batched callback in batches of 1000 rows.
\<close>

function chunks :: "nat \<Rightarrow> 'a list \<Rightarrow> 'a list list" where
  "chunks n xs = (if n = 0 \<or> xs = [] then [] else take n xs # chunks n (drop n xs))"
  by pat_completeness auto
termination
  by (relation "measure (\<lambda>(n, xs). length xs)") auto

declare chunks.simps [simp del]

text \<open>
  The batched map of the dataset library with the callback above, batch by batch; the
  result is the list of the rows written. The library writes the columns the callback
  returns next to the columns of the batch it did not return. The token column is taken
  to be the first column of the dataset: a batch whose first column comes back empty is
  not written at all, and a batch whose columns differ in length raises an error
  (\<open>DatasetError\<close>); the label-string column and the untouched columns keep one entry
  per row of the batch. The types the library infers for the new columns are not
  modelled.
\<close>

fun map_batches ::
  "'doc bridge \<Rightarrow> (string \<rightharpoonup> 'k) \<Rightarrow> (string \<times> string \<times> 'r) list list
     \<Rightarrow> error + (string list \<times> 'k list \<times> 'r) list"
where
  "map_batches br label2id [] = Inr []"
| "map_batches br label2id (batch # batches) =
     (case labels_to_spans_batch br label2id
             (map fst batch) (map (\<lambda>row. fst (snd row)) batch) of
        Inl e \<Rightarrow> Inl e
      | Inr (tokens, ids) \<Rightarrow>
          if tokens = [] then map_batches br label2id batches
          else if length tokens = length batch \<and> length ids = length batch then
            (case map_batches br label2id batches of
               Inl e \<Rightarrow> Inl e
             | Inr rows \<Rightarrow>
                 Inr (zip tokens (zip ids (map (\<lambda>row. snd (snd row)) batch)) @ rows))
          else Inl DatasetError)"

text \<open>
  \<open>spans_to_token_labels\<close>. On a dataset without rows the map returns the dataset as it
  is, and where no batch was written the result of the map has the columns of the
  dataset and no rows; in both cases the column of the tags does not exist and its
  renaming raises ValueError. The rows with an empty token list are filtered out last.
\<close>

definition spans_to_token_labels ::
  "'doc bridge \<Rightarrow> (string \<times> string \<times> 'r) list \<Rightarrow> ('k \<times> string) list
     \<Rightarrow> error + (string list \<times> 'k list \<times> 'r) list"
where
  "spans_to_token_labels br dataset id2label =
     (let label2id = label2id_of id2label in
      if dataset = [] then Inl ValueError
      else
        (case map_batches br label2id (chunks 1000 dataset) of
           Inl e \<Rightarrow> Inl e
         | Inr rows \<Rightarrow>
             if rows = [] then Inl ValueError
             else Inr (filter (\<lambda>(toks, tag_ids, rest). length toks > 0) rows)))"

section \<open>The specification's side\<close>

text \<open>
  The remapping of one tag as the specification words it: a tag with a \<open>B-\<close> or \<open>I-\<close>
  prefix whose entity type is a key of the expansion map keeps the prefix and takes the
  mapped type; every other tag is returned as it is.
\<close>

definition spec_replace_tag :: "(string \<rightharpoonup> string) \<Rightarrow> string \<Rightarrow> string" where
  "spec_replace_tag expansion tag =
     (if take 2 tag = ''B-'' \<or> take 2 tag = ''I-'' then
        (case expansion (drop 2 tag) of
           Some ty \<Rightarrow> take 2 tag @ ty
         | None \<Rightarrow> tag)
      else tag)"

text \<open>The elements of a list in the order in which they are first seen.\<close>

fun first_seen :: "'a list \<Rightarrow> 'a list" where
  "first_seen [] = []"
| "first_seen (x # xs) = x # removeAll x (first_seen xs)"

text \<open>
  The natural-language label string as the specification words it: one line
  \<open>TYPE -> span1, span2, ...\<close> per entity type that has a span, the types in first-seen
  order, the span texts of a type in the order of the spans, the lines joined by the
  line separator.
\<close>

definition spec_label_string :: "string \<Rightarrow> span list \<Rightarrow> string" where
  "spec_label_string text offsets =
     join [CHR 0x0A]
       (map (\<lambda>ty. ty @ '' -> '' @
                 join '', '' (map (\<lambda>(s, e, l). slice text s e)
                                (filter (\<lambda>(s, e, l). l = ty) offsets)))
          (first_seen (map (\<lambda>(s, e, l). l) offsets)))"

text \<open>The entity type of a tag: the tag without its \<open>B-\<close> or \<open>I-\<close> prefix.\<close>

definition entity_type :: "string \<Rightarrow> string" where
  "entity_type tag = (if take 2 tag = ''B-'' \<or> take 2 tag = ''I-'' then drop 2 tag else tag)"

text \<open>A string in which neither \<open>B-\<close> nor \<open>I-\<close> occurs.\<close>

definition no_bio :: "string \<Rightarrow> bool" where
  "no_bio s \<longleftrightarrow> find_sub ''B-'' s = None \<and> find_sub ''I-'' s = None"

text \<open>
  The first occurrence of a string \<open>e\<close> in a text \<open>t\<close>: the first of the offsets
  \<open>0, 1, ..., length t\<close> at which the next \<open>length e\<close> characters of \<open>t\<close> are \<open>e\<close>.
\<close>

definition first_occurrence :: "string \<Rightarrow> string \<Rightarrow> nat option" where
  "first_occurrence e t =
     List.find (\<lambda>i. take (length e) (drop i t) = e) [0..<Suc (length t)]"

text \<open>
  The spans of a label string as the specification words them. The string is cut into
  lines, a line at its separator \<open>->\<close> into entity type and span strings, the span
  strings at \<open>", "\<close>; a span string, trimmed and lower-cased, gives the span of its
  first occurrence in the lower-cased text under the trimmed entity type, and no span
  when it does not occur.
\<close>

definition spec_span :: "string \<Rightarrow> string \<Rightarrow> string \<Rightarrow> span list" where
  "spec_span text ty raw =
     (case first_occurrence (str_lower (str_strip raw)) (str_lower text) of
        None \<Rightarrow> []
      | Some i \<Rightarrow> [(i, i + length (str_lower (str_strip raw)), ty)])"

definition spec_line :: "string \<Rightarrow> string \<Rightarrow> span list" where
  "spec_line text line =
     (case str_split1 ''->'' line of
        [ty, raws] \<Rightarrow> concat (map (spec_span text (str_strip ty)) (str_split '', '' raws))
      | _ \<Rightarrow> [])"

definition spec_spans :: "string \<Rightarrow> string \<Rightarrow> span list" where
  "spec_spans text str_label = concat (map (spec_line text) (str_split [CHR 0x0A] str_label))"

text \<open>A label string every line of which holds the separator \<open>->\<close> exactly once.\<close>

definition well_formed_label :: "string \<Rightarrow> bool" where
  "well_formed_label str_label \<longleftrightarrow>
     list_all (\<lambda>line. length (str_split ''->'' line) = 2) (str_split [CHR 0x0A] str_label)"

text \<open>
  The row the backward converter makes of one example: its tokens, the ids of its tags
  and its untouched columns.
\<close>

definition convert_row ::
  "'doc bridge \<Rightarrow> (string \<rightharpoonup> 'k) \<Rightarrow> string \<times> string \<times> 'r
     \<Rightarrow> error + string list \<times> 'k list \<times> 'r"
where
  "convert_row br label2id row =
     (case row of (text, str_label, rest) \<Rightarrow>
       (case convert_example br text str_label of
          Inl e \<Rightarrow> Inl e
        | Inr (toks, tags) \<Rightarrow>
            (case map_err (map_get label2id) tags of
               Inl e \<Rightarrow> Inl e
             | Inr ids \<Rightarrow> Inr (toks, ids, rest))))"

text \<open>
  The BIO tags of \<open>n\<close> tokens of which the tokens \<open>a\<close> to \<open>b\<close> are one entity of type
  \<open>T\<close>.
\<close>

definition span_tags :: "nat \<Rightarrow> nat \<Rightarrow> nat \<Rightarrow> string \<Rightarrow> string list" where
  "span_tags n a b T =
     map (\<lambda>i. if i = a then ''B-'' @ T else if a < i \<and> i \<le> b then ''I-'' @ T else ''O'')
       [0..<n]"

subsection \<open>A model of the tag-scheme library\<close>

text \<open>
  Modelled from the spec: the external tag-scheme library (BIO to the scheme with
  last-token and single-token markers, that scheme to character offsets over the tokens
  joined by single spaces, offsets to tags over a tokenization, and back to BIO). A
  document is its text and its tokens, each with the offset of its first character. The
  tokenizer of the backward direction is a parameter.
\<close>

type_synonym sdoc = "string \<times> (nat \<times> string) list"

fun word_offsets :: "nat \<Rightarrow> string list \<Rightarrow> (nat \<times> string) list" where
  "word_offsets n [] = []"
| "word_offsets n (w # ws) = (n, w) # word_offsets (n + length w + 1) ws"

definition Doc_model :: "string list \<Rightarrow> sdoc" where
  "Doc_model words = (join '' '' words, word_offsets 0 words)"

text \<open>
  BIO to BILUO: the last tag of an entity becomes \<open>L-\<close>, the tag of a single-token entity
  becomes \<open>U-\<close>.
\<close>

fun iob_to_biluo_model :: "string list \<Rightarrow> string list" where
  "iob_to_biluo_model [] = []"
| "iob_to_biluo_model (tag # tags) =
     (let continued = (case tags of [] \<Rightarrow> False | next # _ \<Rightarrow> next = ''I-'' @ drop 2 tag) in
      (if startswith tag ''B-'' then (if continued then tag else ''U-'' @ drop 2 tag)
       else if startswith tag ''I-'' then (if continued then tag else ''L-'' @ drop 2 tag)
       else tag) # iob_to_biluo_model tags)"

text \<open>
  BILUO to offsets: \<open>start\<close> is the offset of the entity that is open. A tag that
  continues or ends an entity where none is open, and a tag list of another length than
  the token list, are errors.
\<close>

fun tags_to_offsets :: "nat option \<Rightarrow> (nat \<times> string) list \<Rightarrow> string list \<Rightarrow> error + span list" where
  "tags_to_offsets start [] [] = Inr []"
| "tags_to_offsets start ((idx, w) # toks) (tag # tags) =
     (if tag = ''O'' then tags_to_offsets start toks tags
      else if startswith tag ''U-'' then
        (case tags_to_offsets start toks tags of
           Inl e \<Rightarrow> Inl e
         | Inr r \<Rightarrow> Inr ((idx, idx + length w, drop 2 tag) # r))
      else if startswith tag ''B-'' then tags_to_offsets (Some idx) toks tags
      else if startswith tag ''I-'' then
        (case start of None \<Rightarrow> Inl ValueError | Some s \<Rightarrow> tags_to_offsets start toks tags)
      else if startswith tag ''L-'' then
        (case start of
           None \<Rightarrow> Inl ValueError
         | Some s \<Rightarrow>
             (case tags_to_offsets None toks tags of
                Inl e \<Rightarrow> Inl e
              | Inr r \<Rightarrow> Inr ((s, idx + length w, drop 2 tag) # r)))
      else Inl ValueError)"
| "tags_to_offsets start toks tags = Inl ValueError"

definition biluo_tags_to_offsets_model :: "sdoc \<Rightarrow> string list \<Rightarrow> error + span list" where
  "biluo_tags_to_offsets_model doc tags = tags_to_offsets None (snd doc) tags"

text \<open>
  Offsets to BILUO over a tokenization: a span must start where a token starts and end
  where a token ends, or the computation fails; the spans are applied in their order, a
  later span overwriting an earlier one.
\<close>

fun index_where :: "('a \<Rightarrow> bool) \<Rightarrow> 'a list \<Rightarrow> nat option" where
  "index_where P [] = None"
| "index_where P (x # xs) = (if P x then Some 0 else map_option Suc (index_where P xs))"

definition apply_span :: "(nat \<times> string) list \<Rightarrow> string list \<Rightarrow> span \<Rightarrow> error + string list" where
  "apply_span toks tags sp =
     (case sp of (s, e, label) \<Rightarrow>
       (case index_where (\<lambda>(idx, w). idx = s) toks of
          None \<Rightarrow> Inl ValueError
        | Some a \<Rightarrow>
            (case index_where (\<lambda>(idx, w). idx + length w = e) toks of
               None \<Rightarrow> Inl ValueError
             | Some b \<Rightarrow>
                 if a = b then Inr (tags[a := ''U-'' @ label])
                 else if a < b then
                   Inr (map (\<lambda>i. if i = a then ''B-'' @ label
                                 else if i = b then ''L-'' @ label
                                 else if a < i \<and> i < b then ''I-'' @ label
                                 else tags ! i) [0..<length tags])
                 else Inl ValueError)))"

fun apply_spans :: "(nat \<times> string) list \<Rightarrow> string list \<Rightarrow> span list \<Rightarrow> error + string list" where
  "apply_spans toks tags [] = Inr tags"
| "apply_spans toks tags (sp # sps) =
     (case apply_span toks tags sp of
        Inl e \<Rightarrow> Inl e
      | Inr tags' \<Rightarrow> apply_spans toks tags' sps)"

definition offsets_to_biluo_tags_model :: "sdoc \<Rightarrow> span list \<Rightarrow> error + string list" where
  "offsets_to_biluo_tags_model doc spans =
     apply_spans (snd doc) (replicate (length (snd doc)) ''O'') spans"

definition biluo_tag_to_iob :: "string \<Rightarrow> string" where
  "biluo_tag_to_iob tag =
     (if startswith tag ''U-'' then ''B-'' @ drop 2 tag
      else if startswith tag ''L-'' then ''I-'' @ drop 2 tag
      else tag)"

definition biluo_to_iob_model :: "string list \<Rightarrow> string list" where
  "biluo_to_iob_model tags = map biluo_tag_to_iob tags"

definition spec_bridge :: "(string \<Rightarrow> (nat \<times> string) list) \<Rightarrow> sdoc bridge" where
  "spec_bridge tokenizer =
     \<lparr> iob_to_biluo = (\<lambda>tags. Inr (iob_to_biluo_model tags)),
       Doc = Doc_model,
       text_of = fst,
       words_of = (\<lambda>doc. map snd (snd doc)),
       biluo_tags_to_offsets = biluo_tags_to_offsets_model,
       nlp = (\<lambda>text. (text, tokenizer text)),
       offsets_to_biluo_tags = offsets_to_biluo_tags_model,
       biluo_to_iob = (\<lambda>tags. Inr (biluo_to_iob_model tags)) \<rparr>"

text \<open>
  Modelled from the spec: a blank tokenizer, here the one that cuts the text at its
  spaces. \<open>pos\<close> is the offset of the next character, \<open>cur\<close> the token being read, in
  reverse.
\<close>

fun space_tokens :: "nat \<Rightarrow> string \<Rightarrow> string \<Rightarrow> (nat \<times> string) list" where
  "space_tokens pos cur [] = (if cur = [] then [] else [(pos - length cur, rev cur)])"
| "space_tokens pos cur (c # cs) =
     (if c = CHR '' '' then
        (if cur = [] then [] else [(pos - length cur, rev cur)]) @ space_tokens (Suc pos) [] cs
      else space_tokens (Suc pos) (c # cur) cs)"

definition space_tokenizer :: "string \<Rightarrow> (nat \<times> string) list" where
  "space_tokenizer text = space_tokens 0 [] text"

subsection \<open>The alignment routine of the library\<close>

text \<open>
  The tag-scheme library (spaCy 3) does not do what the specification says of it where
  a span misses the token boundaries. Its \<open>offsets_to_biluo_tags\<close> starts from the tag
  \<open>-\<close> on every token. It goes through the spans in their order: a span that shares
  a character with an earlier span raises ValueError; a span that starts where a token
  starts and ends where a token ends sets the tags of its tokens, any other span sets
  none. At the end every token none of whose characters lies in a span gets \<open>O\<close>, so
  the tokens touched by a span that missed the boundaries keep \<open>-\<close>. Its
  \<open>biluo_to_iob\<close> replaces the first \<open>U-\<close> of a tag by \<open>B-\<close> and the first \<open>L-\<close> by
  \<open>I-\<close>. The offsets of the tokens are taken to be distinct.
\<close>

definition token_starts :: "(nat \<times> string) list \<Rightarrow> (nat \<rightharpoonup> nat)" where
  "token_starts toks =
     fold (\<lambda>(i, (idx, w)) starts. starts(idx \<mapsto> i)) (enumerate 0 toks) Map.empty"

definition token_ends :: "(nat \<times> string) list \<Rightarrow> (nat \<rightharpoonup> nat)" where
  "token_ends toks =
     fold (\<lambda>(i, (idx, w)) ends. ends(idx + length w \<mapsto> i)) (enumerate 0 toks) Map.empty"

fun lib_entities ::
  "(nat \<times> string) list \<Rightarrow> nat list \<Rightarrow> string list \<Rightarrow> span list \<Rightarrow> error + string list"
where
  "lib_entities toks tokens_in_ents biluo [] = Inr biluo"
| "lib_entities toks tokens_in_ents biluo ((start_char, end_char, label) # entities) =
     (if label = [] then
        lib_entities toks tokens_in_ents
          (map (\<lambda>(i, (idx, w)). if start_char \<le> idx \<and> idx < end_char then ''O'' else biluo ! i)
             (enumerate 0 toks))
          entities
      else if list_ex (\<lambda>c. c \<in> set tokens_in_ents) [start_char..<end_char] then Inl ValueError
      else
        lib_entities toks ([start_char..<end_char] @ tokens_in_ents)
          (case token_starts toks start_char of
             None \<Rightarrow> biluo
           | Some start_token \<Rightarrow>
               (case token_ends toks end_char of
                  None \<Rightarrow> biluo
                | Some end_token \<Rightarrow>
                    if start_token = end_token then biluo[start_token := ''U-'' @ label]
                    else (fold (\<lambda>i tags. tags[i := ''I-'' @ label]) [Suc start_token..<end_token]
                            (biluo[start_token := ''B-'' @ label]))
                         [end_token := ''L-'' @ label]))
          entities)"

definition lib_missing :: "(nat \<times> string) list \<Rightarrow> span list \<Rightarrow> string list \<Rightarrow> string list" where
  "lib_missing toks entities biluo =
     map (\<lambda>(i, (idx, w)).
            if list_ex (\<lambda>c. list_ex (\<lambda>(start_char, end_char, label).
                                   start_char \<le> c \<and> c < end_char) entities)
                 [idx..<idx + length w]
            then biluo ! i else ''O'')
       (enumerate 0 toks)"

definition offsets_to_biluo_tags_lib :: "sdoc \<Rightarrow> span list \<Rightarrow> error + string list" where
  "offsets_to_biluo_tags_lib doc entities =
     (case lib_entities (snd doc) [] (replicate (length (snd doc)) ''-'') entities of
        Inl e \<Rightarrow> Inl e
      | Inr biluo \<Rightarrow> Inr (lib_missing (snd doc) entities biluo))"

definition str_replace1 :: "string \<Rightarrow> string \<Rightarrow> string \<Rightarrow> string" where
  "str_replace1 old new s =
     (case find_sub old s of
        None \<Rightarrow> s
      | Some i \<Rightarrow> take i s @ new @ drop (i + length old) s)"

definition biluo_to_iob_lib :: "string list \<Rightarrow> string list" where
  "biluo_to_iob_lib tags =
     map (\<lambda>tag. str_replace1 ''L-'' ''I-'' (str_replace1 ''U-'' ''B-'' tag)) tags"

definition lib_bridge :: "(string \<Rightarrow> (nat \<times> string) list) \<Rightarrow> sdoc bridge" where
  "lib_bridge tokenizer =
     \<lparr> iob_to_biluo = (\<lambda>tags. Inr (iob_to_biluo_model tags)),
       Doc = Doc_model,
       text_of = fst,
       words_of = (\<lambda>doc. map snd (snd doc)),
       biluo_tags_to_offsets = biluo_tags_to_offsets_model,
       nlp = (\<lambda>text. (text, tokenizer text)),
       offsets_to_biluo_tags = offsets_to_biluo_tags_lib,
       biluo_to_iob = (\<lambda>tags. Inr (biluo_to_iob_lib tags)) \<rparr>"

section \<open>Facts about the string methods\<close>

lemma startswith_iff: "startswith s p \<longleftrightarrow> (\<exists>r. s = p @ r)"
  by (induction s p rule: startswith.induct) auto

lemma startswith_take: "startswith s p \<longleftrightarrow> take (length p) s = p"
  by (induction s p rule: startswith.induct) auto

lemma find_sub_Some_iff:
  "find_sub sub s = Some i \<longleftrightarrow>
     (i \<le> length s \<and> startswith (drop i s) sub \<and> (\<forall>j<i. \<not> startswith (drop j s) sub))"
proof (induction s arbitrary: i)
  case Nil
  then show ?case by (cases sub) auto
next
  case (Cons c cs)
  show ?case
  proof (cases "startswith (c # cs) sub")
    case True
    then show ?thesis by (cases i) auto
  next
    case False
    show ?thesis
    proof (cases i)
      case 0
      with False show ?thesis by simp
    next
      case (Suc k)
      have "(\<forall>j<Suc k. \<not> startswith (drop j (c # cs)) sub) \<longleftrightarrow>
            (\<forall>j<k. \<not> startswith (drop j cs) sub)"
        using False by (auto simp: less_Suc_eq_0_disj)
      with False Suc Cons.IH [of k] show ?thesis by auto
    qed
  qed
qed

lemma find_sub_None_iff:
  "find_sub sub s = None \<longleftrightarrow> (\<forall>j\<le>length s. \<not> startswith (drop j s) sub)"
proof (induction s)
  case Nil
  then show ?case by (cases sub) auto
next
  case (Cons c cs)
  have "(\<forall>j\<le>length (c # cs). \<not> startswith (drop j (c # cs)) sub) \<longleftrightarrow>
        (\<not> startswith (c # cs) sub \<and> (\<forall>j\<le>length cs. \<not> startswith (drop j cs) sub))"
  proof (intro iffI conjI allI impI)
    assume a: "\<forall>j\<le>length (c # cs). \<not> startswith (drop j (c # cs)) sub"
    from a [rule_format, of 0] show "\<not> startswith (c # cs) sub" by simp
    fix j assume "j \<le> length cs"
    with a [rule_format, of "Suc j"] show "\<not> startswith (drop j cs) sub" by simp
  next
    fix j
    assume a: "\<not> startswith (c # cs) sub \<and> (\<forall>j\<le>length cs. \<not> startswith (drop j cs) sub)"
      and j: "j \<le> length (c # cs)"
    show "\<not> startswith (drop j (c # cs)) sub"
      using a j by (cases j) auto
  qed
  with Cons show ?case by auto
qed

section \<open>The label remapper is a map over the vocabulary\<close>

lemma dict_set_fresh: "k \<notin> fst ` set d \<Longrightarrow> dict_set d k v = d @ [(k, v)]"
  by (induction d) auto

lemma replace_tag_spec: "replace_tag ex tag = Inr (spec_replace_tag ex tag)"
proof (cases "startswith tag ''B-'' \<or> startswith tag ''I-''")
  case False
  then have "take 2 tag \<noteq> ''B-''" "take 2 tag \<noteq> ''I-''"
    using startswith_take [of tag "''B-''"] startswith_take [of tag "''I-''"]
    by (simp_all add: numeral_2_eq_2)
  with False show ?thesis
    by (simp add: replace_tag_def spec_replace_tag_def)
next
  case True
  then obtain c r where tag: "tag = c # CHR ''-'' # r" and c: "c = CHR ''B'' \<or> c = CHR ''I''"
    by (auto simp: startswith_iff)
  have "find_sub ''-'' tag = Some 1"
    using c by (auto simp: tag)
  then have "str_split1 ''-'' tag = [[c], r]"
    by (simp add: str_split1_def tag)
  with True c show ?thesis
    by (auto simp: replace_tag_def spec_replace_tag_def tag split: option.splits)
qed

lemma replace_loop_spec:
  "distinct (map fst items) \<Longrightarrow> fst ` set items \<inter> fst ` set acc = {} \<Longrightarrow>
   replace_loop ex items acc =
     Inr (acc @ map (\<lambda>(idx, tag). (idx, spec_replace_tag ex tag)) items)"
proof (induction items arbitrary: acc)
  case Nil
  then show ?case by simp
next
  case (Cons it items)
  obtain idx tag where it: "it = (idx, tag)" by (cases it)
  from Cons.prems have fresh: "idx \<notin> fst ` set acc" by (auto simp: it)
  have "fst ` set items \<inter> fst ` set (acc @ [(idx, spec_replace_tag ex tag)]) = {}"
    using Cons.prems by (auto simp: it rev_image_eqI)
  with Cons.IH [of "acc @ [(idx, spec_replace_tag ex tag)]"] Cons.prems fresh
  show ?case by (simp add: it replace_tag_spec dict_set_fresh)
qed

lemma replace_token_labels_spec:
  "distinct (map fst id2label) \<Longrightarrow>
   replace_token_labels id2label ex =
     Inr (map (\<lambda>(idx, tag). (idx, spec_replace_tag ex tag)) id2label)"
  by (simp add: replace_token_labels_def replace_loop_spec)

lemma spec_replace_tag_unchanged:
  "\<not> ((take 2 tag = ''B-'' \<or> take 2 tag = ''I-'') \<and> ex (drop 2 tag) \<noteq> None) \<Longrightarrow>
   spec_replace_tag ex tag = tag"
  by (auto simp: spec_replace_tag_def split: option.splits)

lemma map_spec_replace_tag_empty:
  "map (\<lambda>(idx, tag). (idx, spec_replace_tag Map.empty tag)) m = m"
  by (induction m) (auto simp: spec_replace_tag_def)

text \<open>
  C7. For every vocabulary \<open>id2label\<close> (a dict, so with distinct keys) and every expansion
  map, \<open>replace_token_labels\<close> returns, without any failure, the vocabulary in which each
  tag is remapped as the specification says: a tag with a \<open>B-\<close> or \<open>I-\<close> prefix whose
  entity type (the part after the first hyphen) is a key of the expansion map becomes the
  same prefix followed by the mapped type, the outside label and every tag whose type is
  not a key are unchanged. In particular
  \<open>replace_token_labels({0:"O",1:"B-PER",2:"I-PER"}, {"PER":"PERSON"})\<close> is
  \<open>{0:"O",1:"B-PERSON",2:"I-PERSON"}\<close>.
\<close>

theorem replace_token_labels_contract:
  "(distinct (map fst id2label) \<longrightarrow>
      replace_token_labels id2label expansion =
        Inr (map (\<lambda>(idx, tag). (idx, spec_replace_tag expansion tag)) id2label))
   \<and> replace_token_labels [(0::int, ''O''), (1, ''B-PER''), (2, ''I-PER'')]
         [''PER'' \<mapsto> ''PERSON'']
       = Inr [(0, ''O''), (1, ''B-PERSON''), (2, ''I-PERSON'')]"
proof (intro conjI impI)
  assume "distinct (map fst id2label)"
  then show "replace_token_labels id2label expansion =
      Inr (map (\<lambda>(idx, tag). (idx, spec_replace_tag expansion tag)) id2label)"
    by (rule replace_token_labels_spec)
next
  show "replace_token_labels [(0::int, ''O''), (1, ''B-PER''), (2, ''I-PER'')]
         [''PER'' \<mapsto> ''PERSON'']
       = Inr [(0, ''O''), (1, ''B-PERSON''), (2, ''I-PERSON'')]"
    by (simp add: replace_token_labels_def replace_tag_def str_split1_def)
qed

theorem replace_token_labels_contract_witness:
  "distinct (map fst [(7::int, ''B-LOC''), (8, ''I-MISC''), (9, ''O'')])
   \<and> replace_token_labels [(7::int, ''B-LOC''), (8, ''I-MISC''), (9, ''O'')]
         [''LOC'' \<mapsto> ''LOCATION'']
       = Inr [(7, ''B-LOCATION''), (8, ''I-MISC''), (9, ''O'')]"
  using replace_token_labels_contract
    [of "[(7::int, ''B-LOC''), (8, ''I-MISC''), (9, ''O'')]" "[''LOC'' \<mapsto> ''LOCATION'']"]
  by (simp add: spec_replace_tag_def)

text \<open>
  C8. For every vocabulary \<open>m\<close> with distinct keys, \<open>replace_token_labels\<close> leaves in place
  and unchanged every entry whose tag has no \<open>B-\<close>/\<open>I-\<close> prefix or whose entity type is
  not a key of the expansion map, and a second application leaves those entries unchanged
  again; with the empty expansion map the result is \<open>m\<close> itself, so that
  \<open>replace_token_labels(replace_token_labels(m, {}), {})\<close> equals
  \<open>replace_token_labels(m, {})\<close>.
\<close>

theorem replace_token_labels_idempotent:
  "distinct (map fst m) \<Longrightarrow>
   (\<exists>r r2. replace_token_labels m expansion = Inr r
      \<and> replace_token_labels r expansion = Inr r2
      \<and> length r = length m \<and> length r2 = length m
      \<and> (\<forall>i<length m.
           \<not> ((take 2 (snd (m ! i)) = ''B-'' \<or> take 2 (snd (m ! i)) = ''I-'')
              \<and> expansion (drop 2 (snd (m ! i))) \<noteq> None)
           \<longrightarrow> r ! i = m ! i \<and> r2 ! i = m ! i))
   \<and> (\<exists>r. replace_token_labels m Map.empty = Inr r
      \<and> replace_token_labels r Map.empty = replace_token_labels m Map.empty)"
proof (intro conjI)
  assume d: "distinct (map fst m)"
  let ?f = "\<lambda>(idx, tag). (idx, spec_replace_tag expansion tag)"
  let ?r = "map ?f m"
  have keys: "map fst ?r = map fst m"
    by (induction m) auto
  have d': "distinct (map fst ?r)"
    unfolding keys by (rule d)
  have r: "replace_token_labels m expansion = Inr ?r"
    using d by (rule replace_token_labels_spec)
  have r2: "replace_token_labels ?r expansion = Inr (map ?f ?r)"
    using d' by (rule replace_token_labels_spec)
  have same: "?r ! i = m ! i \<and> map ?f ?r ! i = m ! i"
    if i: "i < length m"
      and u: "\<not> ((take 2 (snd (m ! i)) = ''B-'' \<or> take 2 (snd (m ! i)) = ''I-'')
                \<and> expansion (drop 2 (snd (m ! i))) \<noteq> None)"
    for i
  proof -
    obtain idx tag where mi: "m ! i = (idx, tag)" by (cases "m ! i")
    from u have "spec_replace_tag expansion tag = tag"
      by (intro spec_replace_tag_unchanged) (simp add: mi)
    with i show ?thesis by (simp add: mi)
  qed
  show "\<exists>r r2. replace_token_labels m expansion = Inr r
      \<and> replace_token_labels r expansion = Inr r2
      \<and> length r = length m \<and> length r2 = length m
      \<and> (\<forall>i<length m.
           \<not> ((take 2 (snd (m ! i)) = ''B-'' \<or> take 2 (snd (m ! i)) = ''I-'')
              \<and> expansion (drop 2 (snd (m ! i))) \<noteq> None)
           \<longrightarrow> r ! i = m ! i \<and> r2 ! i = m ! i)"
    using r r2 same by (intro exI [of _ ?r] exI [of _ "map ?f ?r"]) simp
  have "replace_token_labels m Map.empty = Inr m"
    using d by (simp add: replace_token_labels_spec map_spec_replace_tag_empty)
  then show "\<exists>r. replace_token_labels m Map.empty = Inr r
      \<and> replace_token_labels r Map.empty = replace_token_labels m Map.empty"
    by simp
qed

theorem replace_token_labels_idempotent_witness:
  "distinct (map fst [(0::int, ''O''), (1, ''B-PER''), (2, ''I-LOC'')])
   \<and> (\<exists>r r2. replace_token_labels [(0::int, ''O''), (1, ''B-PER''), (2, ''I-LOC'')]
               [''PER'' \<mapsto> ''PERSON''] = Inr r
      \<and> replace_token_labels r [''PER'' \<mapsto> ''PERSON''] = Inr r2
      \<and> r ! 2 = (2, ''I-LOC'') \<and> r2 ! 2 = (2, ''I-LOC'')
      \<and> r ! 0 = (0, ''O'') \<and> r2 ! 0 = (0, ''O''))"
proof -
  let ?m = "[(0::int, ''O''), (1, ''B-PER''), (2, ''I-LOC'')]"
  have d: "distinct (map fst ?m)" by simp
  from replace_token_labels_idempotent [OF d, of "[''PER'' \<mapsto> ''PERSON'']"]
  obtain r r2 where r: "replace_token_labels ?m [''PER'' \<mapsto> ''PERSON''] = Inr r"
    and r2: "replace_token_labels r [''PER'' \<mapsto> ''PERSON''] = Inr r2"
    and same: "\<forall>i<length ?m.
           \<not> ((take 2 (snd (?m ! i)) = ''B-'' \<or> take 2 (snd (?m ! i)) = ''I-'')
              \<and> [''PER'' \<mapsto> ''PERSON''] (drop 2 (snd (?m ! i))) \<noteq> None)
           \<longrightarrow> r ! i = ?m ! i \<and> r2 ! i = ?m ! i"
    by blast
  from same [rule_format, of 2] have "r ! 2 = (2, ''I-LOC'') \<and> r2 ! 2 = (2, ''I-LOC'')"
    by simp
  moreover from same [rule_format, of 0] have "r ! 0 = (0, ''O'') \<and> r2 ! 0 = (0, ''O'')"
    by simp
  ultimately show ?thesis using d r r2 by blast
qed

section \<open>The label options of the forward converter\<close>

lemma list_remove_absent: "x \<notin> set xs \<Longrightarrow> list_remove xs x = Inl ValueError"
  by (induction xs) auto

lemma list_remove_present:
  "x \<in> set xs \<Longrightarrow> distinct xs \<Longrightarrow> \<exists>ys. list_remove xs x = Inr ys \<and> set ys = set xs - {x}"
proof (induction xs)
  case Nil
  then show ?case by simp
next
  case (Cons y xs)
  show ?case
  proof (cases "y = x")
    case True
    with Cons.prems show ?thesis by auto
  next
    case False
    with Cons obtain ys where "list_remove xs x = Inr ys" "set ys = set xs - {x}"
      by auto
    with False show ?thesis by auto
  qed
qed

lemma str_replace_absent: "find_sub old s = None \<Longrightarrow> str_replace old new s = s"
  by (induction s) (auto split: if_splits)

text \<open>
  Where neither \<open>B-\<close> nor \<open>I-\<close> occurs in the entity type of a tag, replacing every
  occurrence of the two strings in the tag is the same as taking the prefix off.
\<close>

lemma strip_bio_entity_type:
  assumes "no_bio (entity_type tag)"
  shows "strip_bio tag = entity_type tag"
proof (cases "take 2 tag = ''B-'' \<or> take 2 tag = ''I-''")
  case False
  with assms show ?thesis
    by (simp add: entity_type_def no_bio_def strip_bio_def str_replace_absent)
next
  case True
  then obtain c r where tag: "tag = c # CHR ''-'' # r" and c: "c = CHR ''B'' \<or> c = CHR ''I''"
    by (cases tag; cases "tl tag") (auto simp: numeral_2_eq_2)
  with assms have r: "find_sub ''B-'' r = None" "find_sub ''I-'' r = None"
    by (auto simp: entity_type_def no_bio_def)
  from c r show ?thesis
    by (auto simp: tag entity_type_def strip_bio_def str_replace_absent)
qed

lemma label_options_of_absent:
  "''O'' \<notin> strip_bio ` snd ` set id2label \<Longrightarrow> label_options_of id2label = Inl ValueError"
  by (simp add: label_options_of_def list_remove_absent image_image)

lemma label_options_of_present:
  assumes "''O'' \<in> strip_bio ` snd ` set id2label"
  shows "\<exists>opts. label_options_of id2label = Inr opts
           \<and> set opts = strip_bio ` snd ` set id2label - {''O''}"
proof -
  let ?xs = "remdups (map strip_bio (map snd id2label))"
  have "''O'' \<in> set ?xs" "distinct ?xs"
    using assms by (simp_all add: image_image)
  from list_remove_present [OF this]
  show ?thesis by (simp add: label_options_of_def image_image)
qed

text \<open>
  On a vocabulary whose entity types contain neither \<open>B-\<close> nor \<open>I-\<close> and which has the
  outside label, the label options are the entity types without \<open>O\<close>.
\<close>

lemma label_options_of_entity_types:
  assumes "\<And>tag. tag \<in> snd ` set id2label \<Longrightarrow> no_bio (entity_type tag)"
    and "''O'' \<in> entity_type ` snd ` set id2label"
  shows "\<exists>opts. label_options_of id2label = Inr opts
           \<and> set opts = entity_type ` snd ` set id2label - {''O''}"
proof -
  have "strip_bio tag = entity_type tag" if "tag \<in> snd ` set id2label" for tag
    using that by (intro strip_bio_entity_type assms(1))
  then have eq: "strip_bio ` snd ` set id2label = entity_type ` snd ` set id2label"
    by (rule image_cong [OF refl])
  with assms(2) have "''O'' \<in> strip_bio ` snd ` set id2label"
    by simp
  from label_options_of_present [OF this] show ?thesis
    unfolding eq .
qed

text \<open>
  C9. The label options are meant to be the entity type names of the vocabulary, the tags
  without their \<open>B-\<close>/\<open>I-\<close> prefix and without \<open>O\<close>. The converter does not take the
  prefix off: it deletes every occurrence of \<open>B-\<close> and then of \<open>I-\<close> in the tag. For the
  vocabulary \<open>O, B-JOB-TITLE, I-JOB-TITLE\<close>, whose only entity type is \<open>JOB-TITLE\<close>, the
  label options are \<open>JOTITLE\<close>, and a call on the tokens \<open>Anna is chief engineer\<close> with
  the tags \<open>O O B-JOB-TITLE I-JOB-TITLE\<close> returns the option \<open>JOTITLE\<close> beside the label
  string \<open>JOB-TITLE -> chief engineer\<close>. For the vocabulary
  \<open>O, B-PER, I-PER, B-LOC, I-LOC\<close> the options are \<open>PER\<close> and \<open>LOC\<close>.
\<close>

theorem label_options_hyphenated_type:
  "label_options_of [(0::nat, ''O''), (1, ''B-JOB-TITLE''), (2, ''I-JOB-TITLE'')]
     = Inr [''JOTITLE'']
   \<and> entity_type ''B-JOB-TITLE'' = ''JOB-TITLE''
   \<and> entity_type ''I-JOB-TITLE'' = ''JOB-TITLE''
   \<and> (\<exists>text. token_labels_to_spans (spec_bridge tokenizer)
          [([''Anna'', ''is'', ''chief'', ''engineer''], [0, 0, 1, 2], r)]
          [(0::nat, ''O''), (1, ''B-JOB-TITLE''), (2, ''I-JOB-TITLE'')]
        = Inr ([(text, ''JOB-TITLE -> chief engineer'', r)], [''JOTITLE'']))
   \<and> (\<exists>opts. label_options_of
          [(0::nat, ''O''), (1, ''B-PER''), (2, ''I-PER''), (3, ''B-LOC''), (4, ''I-LOC'')]
        = Inr opts \<and> set opts = {''PER'', ''LOC''})"
proof (intro conjI)
  show "label_options_of [(0::nat, ''O''), (1, ''B-JOB-TITLE''), (2, ''I-JOB-TITLE'')]
     = Inr [''JOTITLE'']"
    by (simp add: label_options_of_def strip_bio_def)
  show "entity_type ''B-JOB-TITLE'' = ''JOB-TITLE''"
    by (simp add: entity_type_def)
  show "entity_type ''I-JOB-TITLE'' = ''JOB-TITLE''"
    by (simp add: entity_type_def)
  have "token_labels_to_spans (spec_bridge tokenizer)
          [([''Anna'', ''is'', ''chief'', ''engineer''], [0, 0, 1, 2], r)]
          [(0::nat, ''O''), (1, ''B-JOB-TITLE''), (2, ''I-JOB-TITLE'')]
        = Inr ([(''Anna is chief engineer'', ''JOB-TITLE -> chief engineer'', r)],
               [''JOTITLE''])"
    by (simp add: token_labels_to_spans_def label_options_of_def strip_bio_def
        labels_to_spans_def dict_get_def spec_bridge_def Doc_model_def
        biluo_tags_to_offsets_model_def group_spans_def format_spans_def slice_def
        LABEL_SEPARATOR_def LABEL2ENTITY_SEPARATOR_def ENTITY_SEPARATOR_def)
  then show "\<exists>text. token_labels_to_spans (spec_bridge tokenizer)
          [([''Anna'', ''is'', ''chief'', ''engineer''], [0, 0, 1, 2], r)]
          [(0::nat, ''O''), (1, ''B-JOB-TITLE''), (2, ''I-JOB-TITLE'')]
        = Inr ([(text, ''JOB-TITLE -> chief engineer'', r)], [''JOTITLE''])"
    by blast
  have "label_options_of
          [(0::nat, ''O''), (1, ''B-PER''), (2, ''I-PER''), (3, ''B-LOC''), (4, ''I-LOC'')]
        = Inr [''PER'', ''LOC'']"
    by (simp add: label_options_of_def strip_bio_def)
  then show "\<exists>opts. label_options_of
          [(0::nat, ''O''), (1, ''B-PER''), (2, ''I-PER''), (3, ''B-LOC''), (4, ''I-LOC'')]
        = Inr opts \<and> set opts = {''PER'', ''LOC''}"
    by auto
qed

text \<open>
  C10. When no value of \<open>id2label\<close> gives \<open>O\<close> once its \<open>B-\<close> and \<open>I-\<close> are taken off,
  \<open>token_labels_to_spans\<close> raises ValueError, whatever the dataset and the tag-scheme
  library are: the removal of \<open>O\<close> from the label options fails before any example is
  transformed. This holds for the stripping the converter computes (first conjunct), and
  so for the stripping of the prefix on every vocabulary whose entity types contain
  neither \<open>B-\<close> nor \<open>I-\<close> (second conjunct).
\<close>

theorem token_labels_to_spans_requires_outside_label:
  "(''O'' \<notin> strip_bio ` snd ` set id2label \<longrightarrow>
      token_labels_to_spans br dataset id2label = Inl ValueError)
   \<and> ((\<forall>tag \<in> snd ` set id2label. no_bio (entity_type tag))
        \<and> ''O'' \<notin> entity_type ` snd ` set id2label \<longrightarrow>
      token_labels_to_spans br dataset id2label = Inl ValueError)"
proof (intro conjI impI)
  assume "''O'' \<notin> strip_bio ` snd ` set id2label"
  then show "token_labels_to_spans br dataset id2label = Inl ValueError"
    by (simp add: token_labels_to_spans_def label_options_of_absent)
next
  assume a: "(\<forall>tag \<in> snd ` set id2label. no_bio (entity_type tag))
        \<and> ''O'' \<notin> entity_type ` snd ` set id2label"
  then have "strip_bio tag = entity_type tag" if "tag \<in> snd ` set id2label" for tag
    using that by (intro strip_bio_entity_type) blast
  then have "strip_bio ` snd ` set id2label = entity_type ` snd ` set id2label"
    by (rule image_cong [OF refl])
  with a have "''O'' \<notin> strip_bio ` snd ` set id2label"
    by simp
  then show "token_labels_to_spans br dataset id2label = Inl ValueError"
    by (simp add: token_labels_to_spans_def label_options_of_absent)
qed

theorem token_labels_to_spans_requires_outside_label_witness:
  "''O'' \<notin> strip_bio ` snd ` set [(1::nat, ''B-PER''), (2, ''I-PER'')]
   \<and> no_bio (entity_type ''B-PER'') \<and> no_bio (entity_type ''I-PER'')
   \<and> ''O'' \<notin> entity_type ` snd ` set [(1::nat, ''B-PER''), (2, ''I-PER'')]
   \<and> token_labels_to_spans (spec_bridge space_tokenizer)
        [([''John'', ''Smith''], [1, 2], ())] [(1::nat, ''B-PER''), (2, ''I-PER'')]
       = Inl ValueError"
  using token_labels_to_spans_requires_outside_label
    [of "[(1::nat, ''B-PER''), (2, ''I-PER'')]" "spec_bridge space_tokenizer"
        "[([''John'', ''Smith''], [1, 2], ())]"]
  by (simp add: strip_bio_def entity_type_def no_bio_def)

section \<open>The label string of the forward converter\<close>

lemma map_err_Inr_iff:
  "map_err f xs = Inr ys \<longleftrightarrow>
     length ys = length xs \<and> (\<forall>i<length xs. f (xs ! i) = Inr (ys ! i))"
proof (induction xs arbitrary: ys)
  case Nil
  then show ?case by auto
next
  case (Cons x xs)
  show ?case
  proof (cases ys)
    case Nil
    then show ?thesis by (auto split: sum.splits)
  next
    case (Cons y ys')
    have "(\<forall>i<length (x # xs). f ((x # xs) ! i) = Inr ((y # ys') ! i)) \<longleftrightarrow>
          f x = Inr y \<and> (\<forall>i<length xs. f (xs ! i) = Inr (ys' ! i))"
      by (auto simp: less_Suc_eq_0_disj)
    with Cons.IH [of ys'] Cons show ?thesis
      by (auto split: sum.splits)
  qed
qed

lemma set_first_seen [simp]: "set (first_seen xs) = set xs"
  by (induction xs) auto

lemma distinct_first_seen [simp]: "distinct (first_seen xs)"
  by (induction xs) (auto simp: distinct_removeAll)

lemma first_seen_snoc:
  "first_seen (xs @ [y]) = (if y \<in> set xs then first_seen xs else first_seen xs @ [y])"
  by (induction xs) auto

lemma setdefault_append_map:
  "distinct ks \<Longrightarrow>
   setdefault_append (map (\<lambda>k. (k, f k)) ks) l v =
     (if l \<in> set ks then map (\<lambda>k. (k, if k = l then f k @ [v] else f k)) ks
      else map (\<lambda>k. (k, f k)) ks @ [(l, [v])])"
  by (induction ks) auto

lemma group_spans_eq:
  "group_spans text offsets =
     map (\<lambda>ty. (ty, map (\<lambda>(s, e, l). slice text s e) (filter (\<lambda>(s, e, l). l = ty) offsets)))
       (first_seen (map (\<lambda>(s, e, l). l) offsets))"
proof (induction offsets rule: rev_induct)
  case Nil
  then show ?case by (simp add: group_spans_def)
next
  case (snoc sp offsets)
  obtain s e l where sp: "sp = (s, e, l)" by (cases sp)
  let ?f = "\<lambda>ty. map (\<lambda>(s, e, l). slice text s e) (filter (\<lambda>(s, e, l). l = ty) offsets)"
  let ?ks = "first_seen (map (\<lambda>(s, e, l). l) offsets)"
  have "group_spans text (offsets @ [sp]) =
        setdefault_append (group_spans text offsets) l (slice text s e)"
    by (simp add: group_spans_def sp)
  also have "\<dots> = setdefault_append (map (\<lambda>ty. (ty, ?f ty)) ?ks) l (slice text s e)"
    by (simp only: snoc.IH)
  also have "\<dots> =
      (if l \<in> set ?ks then map (\<lambda>k. (k, if k = l then ?f k @ [slice text s e] else ?f k)) ?ks
       else map (\<lambda>k. (k, ?f k)) ?ks @ [(l, [slice text s e])])"
    by (rule setdefault_append_map) simp
  also have "\<dots> =
      map (\<lambda>ty. (ty, map (\<lambda>(s, e, l). slice text s e)
                       (filter (\<lambda>(s, e, l). l = ty) (offsets @ [sp]))))
        (first_seen (map (\<lambda>(s, e, l). l) (offsets @ [sp])))"
  proof (cases "l \<in> set ?ks")
    case True
    then have "l \<in> set (map (\<lambda>(s, e, l). l) offsets)" by simp
    then show ?thesis
      by (simp add: first_seen_snoc sp)
  next
    case False
    then have nl: "l \<notin> set (map (\<lambda>(s, e, l). l) offsets)" by simp
    then have "filter (\<lambda>(s, e, l'). l' = l) offsets = []"
      by (force simp: filter_empty_conv)
    moreover from nl have "(a, b, l) \<notin> set offsets" for a b
      by force
    ultimately show ?thesis
      using False nl by (auto simp: first_seen_snoc sp)
  qed
  finally show ?case .
qed

lemma format_group_spans:
  "format_spans (group_spans text offsets) = spec_label_string text offsets"
  by (simp add: group_spans_eq format_spans_def spec_label_string_def comp_def
      LABEL_SEPARATOR_def LABEL2ENTITY_SEPARATOR_def ENTITY_SEPARATOR_def)

lemma labels_to_spans_Inr:
  "labels_to_spans br id2label (tokens, labels) = Inr (text, label) \<Longrightarrow>
   \<exists>bio_tags bilou_tags offsets.
      map_err (dict_get id2label) labels = Inr bio_tags
    \<and> iob_to_biluo br bio_tags = Inr bilou_tags
    \<and> biluo_tags_to_offsets br (Doc br tokens) bilou_tags = Inr offsets
    \<and> text = text_of br (Doc br tokens)
    \<and> label = spec_label_string text offsets"
  by (auto simp: labels_to_spans_def Let_def format_group_spans split: sum.splits)

text \<open>
  C1. Whenever \<open>token_labels_to_spans\<close> returns, every row of its result holds the text
  of the document built from the row's tokens and the label string the specification
  describes for the offsets the tag-scheme library gave for that document: one line
  \<open>TYPE -> span1, span2, ...\<close> per entity type that has a span, the lines joined by the
  newline, the types in first-seen order, the span texts of a type joined by \<open>", "\<close> in
  the order of the spans; the columns the converter does not touch are unchanged. In
  particular the tokens \<open>John lives in Berlin\<close> with the tags \<open>B-PER O O B-LOC\<close> give
  the two lines \<open>PER -> John\<close> and \<open>LOC -> Berlin\<close>.
\<close>

theorem token_labels_to_spans_label_string:
  "(token_labels_to_spans br dataset id2label = Inr (dataset', label_options) \<longrightarrow>
      length dataset' = length dataset
      \<and> (\<forall>i<length dataset.
            \<exists>tokens labels rest bio_tags bilou_tags offsets.
               dataset ! i = (tokens, labels, rest)
             \<and> map_err (dict_get id2label) labels = Inr bio_tags
             \<and> iob_to_biluo br bio_tags = Inr bilou_tags
             \<and> biluo_tags_to_offsets br (Doc br tokens) bilou_tags = Inr offsets
             \<and> dataset' ! i =
                 (text_of br (Doc br tokens),
                  spec_label_string (text_of br (Doc br tokens)) offsets, rest)))
   \<and> token_labels_to_spans (spec_bridge tokenizer)
         [([''John'', ''lives'', ''in'', ''Berlin''], [1, 0, 0, 3], r)]
         [(0::nat, ''O''), (1, ''B-PER''), (2, ''I-PER''), (3, ''B-LOC''), (4, ''I-LOC'')]
       = Inr ([(''John lives in Berlin'', ''PER -> John'' @ [CHR 0x0A] @ ''LOC -> Berlin'', r)],
              [''PER'', ''LOC''])"
proof (intro conjI impI allI)
  assume ret: "token_labels_to_spans br dataset id2label = Inr (dataset', label_options)"
  let ?f = "\<lambda>(tokens, labels, rest).
              case labels_to_spans br id2label (tokens, labels) of
                Inl e \<Rightarrow> Inl e
              | Inr (text, label) \<Rightarrow> Inr (text, label, rest)"
  from ret have m: "map_err ?f dataset = Inr dataset'"
    by (auto simp: token_labels_to_spans_def split: sum.splits if_splits)
  then show "length dataset' = length dataset"
    by (simp add: map_err_Inr_iff)
  fix i
  assume i: "i < length dataset"
  obtain tokens labels rest where row: "dataset ! i = (tokens, labels, rest)"
    by (cases "dataset ! i")
  from m i have "?f (dataset ! i) = Inr (dataset' ! i)"
    by (simp add: map_err_Inr_iff)
  then obtain t l where
    cb: "labels_to_spans br id2label (tokens, labels) = Inr (t, l)"
    and out: "dataset' ! i = (t, l, rest)"
    by (auto simp: row split: sum.splits)
  from labels_to_spans_Inr [OF cb] out row
  show "\<exists>tokens labels rest bio_tags bilou_tags offsets.
               dataset ! i = (tokens, labels, rest)
             \<and> map_err (dict_get id2label) labels = Inr bio_tags
             \<and> iob_to_biluo br bio_tags = Inr bilou_tags
             \<and> biluo_tags_to_offsets br (Doc br tokens) bilou_tags = Inr offsets
             \<and> dataset' ! i =
                 (text_of br (Doc br tokens),
                  spec_label_string (text_of br (Doc br tokens)) offsets, rest)"
    by auto
next
  show "token_labels_to_spans (spec_bridge tokenizer)
         [([''John'', ''lives'', ''in'', ''Berlin''], [1, 0, 0, 3], r)]
         [(0::nat, ''O''), (1, ''B-PER''), (2, ''I-PER''), (3, ''B-LOC''), (4, ''I-LOC'')]
       = Inr ([(''John lives in Berlin'', ''PER -> John'' @ [CHR 0x0A] @ ''LOC -> Berlin'', r)],
              [''PER'', ''LOC''])"
    by (simp add: token_labels_to_spans_def label_options_of_def strip_bio_def
        labels_to_spans_def dict_get_def spec_bridge_def Doc_model_def
        biluo_tags_to_offsets_model_def group_spans_def format_spans_def slice_def
        LABEL_SEPARATOR_def LABEL2ENTITY_SEPARATOR_def ENTITY_SEPARATOR_def)
qed

theorem token_labels_to_spans_label_string_witness:
  "token_labels_to_spans (spec_bridge space_tokenizer)
         [([''Anna'', ''Smith'', ''met'', ''Bob''], [1, 2, 0, 1], ())]
         [(0::nat, ''O''), (1, ''B-PER''), (2, ''I-PER'')]
       = Inr ([(''Anna Smith met Bob'', ''PER -> Anna Smith, Bob'', ())], [''PER''])
   \<and> (\<exists>offsets.
         biluo_tags_to_offsets (spec_bridge space_tokenizer)
           (Doc (spec_bridge space_tokenizer) [''Anna'', ''Smith'', ''met'', ''Bob''])
           [''B-PER'', ''L-PER'', ''O'', ''U-PER''] = Inr offsets
       \<and> ''PER -> Anna Smith, Bob'' = spec_label_string ''Anna Smith met Bob'' offsets)"
proof -
  let ?br = "spec_bridge space_tokenizer"
  let ?ds = "[([''Anna'', ''Smith'', ''met'', ''Bob''], [1::nat, 2, 0, 1], ())]"
  let ?v = "[(0::nat, ''O''), (1, ''B-PER''), (2, ''I-PER'')]"
  let ?ds' = "[(''Anna Smith met Bob'', ''PER -> Anna Smith, Bob'', ())]"
  have ret: "token_labels_to_spans ?br ?ds ?v = Inr (?ds', [''PER''])"
    by (simp add: token_labels_to_spans_def label_options_of_def strip_bio_def
        labels_to_spans_def dict_get_def spec_bridge_def Doc_model_def
        biluo_tags_to_offsets_model_def group_spans_def format_spans_def slice_def
        LABEL_SEPARATOR_def LABEL2ENTITY_SEPARATOR_def ENTITY_SEPARATOR_def)
  from token_labels_to_spans_label_string [of ?br ?ds ?v ?ds' "[''PER'']", THEN conjunct1,
      rule_format, OF ret]
  have "\<exists>tokens labels rest bio_tags bilou_tags offsets.
               ?ds ! 0 = (tokens, labels, rest)
             \<and> map_err (dict_get ?v) labels = Inr bio_tags
             \<and> iob_to_biluo ?br bio_tags = Inr bilou_tags
             \<and> biluo_tags_to_offsets ?br (Doc ?br tokens) bilou_tags = Inr offsets
             \<and> ?ds' ! 0 =
                 (text_of ?br (Doc ?br tokens),
                  spec_label_string (text_of ?br (Doc ?br tokens)) offsets, rest)"
    by simp
  then have "\<exists>offsets.
         biluo_tags_to_offsets ?br (Doc ?br [''Anna'', ''Smith'', ''met'', ''Bob''])
           [''B-PER'', ''L-PER'', ''O'', ''U-PER''] = Inr offsets
       \<and> ''PER -> Anna Smith, Bob'' = spec_label_string ''Anna Smith met Bob'' offsets"
    by (auto simp: dict_get_def spec_bridge_def Doc_model_def)
  with ret show ?thesis by blast
qed

section \<open>The spans of the backward converter\<close>

lemma length_str_lower [simp]: "length (str_lower s) = length s"
  by (simp add: str_lower_def)

lemma startswith_slice: "startswith (drop j t) e \<longleftrightarrow> slice t j (j + length e) = e"
  by (simp add: startswith_take slice_def)

lemma find_sub_Nil [simp]: "find_sub [] s = Some 0"
  by (cases s) auto

lemma startswith_length: "startswith s p \<Longrightarrow> length p \<le> length s"
  by (auto simp: startswith_iff)

lemma find_sub_Some_slice:
  assumes "find_sub e t = Some i"
  shows "slice t i (i + length e) = e" and "i + length e \<le> length t"
    and "\<forall>j<i. slice t j (j + length e) \<noteq> e"
proof -
  from assms have i: "i \<le> length t" and s: "startswith (drop i t) e"
    and least: "\<forall>j<i. \<not> startswith (drop j t) e"
    by (simp_all add: find_sub_Some_iff)
  from s show "slice t i (i + length e) = e" by (simp add: startswith_slice)
  from startswith_length [OF s] i show "i + length e \<le> length t" by simp
  from least show "\<forall>j<i. slice t j (j + length e) \<noteq> e" by (simp add: startswith_slice)
qed

lemma find_sub_None_slice:
  assumes "find_sub e t = None"
  shows "slice t j (j + length e) \<noteq> e"
proof (cases "j \<le> length t")
  case True
  with assms show ?thesis by (simp add: find_sub_None_iff startswith_slice [symmetric])
next
  case False
  from assms have "e \<noteq> []" by auto
  with False show ?thesis by (auto simp: slice_def)
qed

lemma find_sub_first_occurrence: "find_sub e t = first_occurrence e t"
proof (cases "find_sub e t")
  case None
  then have "\<forall>j\<le>length t. take (length e) (drop j t) \<noteq> e"
    by (simp add: find_sub_None_iff startswith_take)
  then have "first_occurrence e t = None"
    by (auto simp: first_occurrence_def find_None_iff)
  with None show ?thesis by simp
next
  case (Some i)
  then have i: "i \<le> length t" and at: "take (length e) (drop i t) = e"
    and least: "\<forall>j<i. take (length e) (drop j t) \<noteq> e"
    by (simp_all add: find_sub_Some_iff startswith_take)
  let ?xs = "[0..<Suc (length t)]"
  have "\<exists>k<length ?xs. take (length e) (drop (?xs ! k) t) = e \<and> i = ?xs ! k
          \<and> (\<forall>j<k. take (length e) (drop (?xs ! j) t) \<noteq> e)"
  proof (intro exI [of _ i] conjI allI impI)
    show "i < length ?xs" using i by simp
    from i have nth: "?xs ! i = i" by (simp add: nth_upt del: upt_Suc)
    show "take (length e) (drop (?xs ! i) t) = e" unfolding nth by (rule at)
    show "i = ?xs ! i" unfolding nth ..
    fix j assume j: "j < i"
    with i have "?xs ! j = j" by (simp add: nth_upt del: upt_Suc)
    with least j show "take (length e) (drop (?xs ! j) t) \<noteq> e" by simp
  qed
  then have "first_occurrence e t = Some i"
    unfolding first_occurrence_def find_Some_iff by blast
  with Some show ?thesis by simp
qed

lemma str_split_not_Nil: "str_split sep s \<noteq> []"
  by (subst str_split.simps) (simp split: option.splits)

lemma str_split_two_split1:
  assumes "str_split sep s = [a, b]"
  shows "str_split1 sep s = [a, b]"
proof (cases "find_sub sep s")
  case None
  with assms show ?thesis by (simp add: str_split.simps)
next
  case (Some i)
  show ?thesis
  proof (cases "sep = []")
    case True
    with assms Some show ?thesis by (simp add: str_split.simps)
  next
    case False
    let ?rest = "drop (i + length sep) s"
    from assms Some False have a: "a = take i s" and r: "str_split sep ?rest = [b]"
      by (simp_all add: str_split.simps [of sep s])
    have "b = ?rest"
    proof (cases "find_sub sep ?rest")
      case None
      with r show ?thesis by (simp add: str_split.simps [of sep ?rest])
    next
      case (Some k)
      with r False str_split_not_Nil [of sep "drop (k + length sep) ?rest"]
      show ?thesis by (simp add: str_split.simps [of sep ?rest])
    qed
    with a Some show ?thesis by (simp add: str_split1_def)
  qed
qed

lemma entity_spans_spec:
  "entity_spans text ty (str_lower (str_strip raw)) = spec_span text ty raw"
  by (simp add: entity_spans_def spec_span_def find_sub_first_occurrence)

lemma line_spans_iff:
  "line_spans text line = Inr spans \<longleftrightarrow>
     length (str_split LABEL2ENTITY_SEPARATOR line) = 2 \<and> spans = spec_line text line"
proof (cases "length (str_split LABEL2ENTITY_SEPARATOR line) = 2")
  case True
  then obtain a b where ab: "str_split LABEL2ENTITY_SEPARATOR line = [a, b]"
    by (cases "str_split LABEL2ENTITY_SEPARATOR line" rule: unpack2.cases) auto
  then have "str_split1 ''->'' line = [a, b]"
    by (intro str_split_two_split1) (simp add: LABEL2ENTITY_SEPARATOR_def)
  then have "spec_line text line =
      concat (map (spec_span text (str_strip a)) (str_split '', '' b))"
    by (simp add: spec_line_def)
  moreover have "line_spans text line =
      Inr (concat (map (spec_span text (str_strip a)) (str_split '', '' b)))"
    by (simp add: line_spans_def ab entity_spans_spec comp_def ENTITY_SEPARATOR_def)
  ultimately show ?thesis using True by auto
next
  case False
  then have "unpack2 (str_split LABEL2ENTITY_SEPARATOR line) = Inl ValueError"
    by (cases "str_split LABEL2ENTITY_SEPARATOR line" rule: unpack2.cases) auto
  with False show ?thesis by (simp add: line_spans_def)
qed

lemma map_err_Inr_map:
  assumes "\<And>x y. x \<in> set xs \<Longrightarrow> (f x = Inr y \<longleftrightarrow> P x \<and> y = g x)"
  shows "map_err f xs = Inr ys \<longleftrightarrow> list_all P xs \<and> ys = map g xs"
  using assms
proof (induction xs arbitrary: ys)
  case Nil
  then show ?case by auto
next
  case (Cons x xs)
  have ih: "map_err f xs = Inr zs \<longleftrightarrow> list_all P xs \<and> zs = map g xs" for zs
    by (rule Cons.IH) (simp add: Cons.prems)
  have hd: "f x = Inr y \<longleftrightarrow> P x \<and> y = g x" for y
    by (rule Cons.prems) simp
  show ?case
  proof (cases "f x")
    case (Inl e)
    with hd [of "g x"] show ?thesis by auto
  next
    case (Inr y)
    with hd [of y] have px: "P x" "y = g x" by simp_all
    show ?thesis
    proof (cases "map_err f xs")
      case (Inl e)
      with ih [of "map g xs"] Inr show ?thesis by auto
    next
      case r: (Inr zs)
      with ih [of zs] Inr px show ?thesis by auto
    qed
  qed
qed

lemma collect_spans_iff:
  "collect_spans text str_label = Inr spans \<longleftrightarrow>
     well_formed_label str_label \<and> spans = spec_spans text str_label"
proof -
  let ?lines = "str_split LABEL_SEPARATOR str_label"
  have m: "map_err (line_spans text) ?lines = Inr ys \<longleftrightarrow>
        list_all (\<lambda>line. length (str_split LABEL2ENTITY_SEPARATOR line) = 2) ?lines
        \<and> ys = map (spec_line text) ?lines" for ys
    by (rule map_err_Inr_map) (rule line_spans_iff)
  show ?thesis
  proof (cases "map_err (line_spans text) ?lines")
    case (Inl e)
    with m [of "map (spec_line text) ?lines"] show ?thesis
      by (simp add: collect_spans_def well_formed_label_def
          LABEL_SEPARATOR_def LABEL2ENTITY_SEPARATOR_def)
  next
    case (Inr ys)
    with m [of ys] show ?thesis
      by (auto simp: collect_spans_def well_formed_label_def spec_spans_def
          LABEL_SEPARATOR_def LABEL2ENTITY_SEPARATOR_def)
  qed
qed

lemma convert_example_spec:
  assumes "well_formed_label str_label"
  shows "convert_example br text str_label =
     (case bio_tags_of br (nlp br text) (spec_spans text str_label) of
        Inr tags \<Rightarrow> Inr (words_of br (nlp br text), tags)
      | Inl ValueError \<Rightarrow> Inr ([], [])
      | Inl e \<Rightarrow> Inl e)"
proof -
  from assms have "collect_spans text str_label = Inr (spec_spans text str_label)"
    by (simp add: collect_spans_iff)
  then show ?thesis by (simp add: convert_example_def Let_def)
qed

section \<open>The batches of the backward converter\<close>

lemma filter_length_eq: "length (filter P xs) = length xs \<Longrightarrow> filter P xs = xs"
proof (induction xs)
  case Nil
  then show ?case by simp
next
  case (Cons x xs)
  show ?case
  proof (cases "P x")
    case True
    with Cons show ?thesis by simp
  next
    case False
    with Cons.prems have "length (filter P xs) = Suc (length xs)" by simp
    moreover have "length (filter P xs) \<le> length xs" by (rule length_filter_le)
    ultimately show ?thesis by linarith
  qed
qed

lemma map_err_append:
  "map_err f (xs @ ys) =
     (case map_err f xs of
        Inl e \<Rightarrow> Inl e
      | Inr a \<Rightarrow> (case map_err f ys of Inl e \<Rightarrow> Inl e | Inr b \<Rightarrow> Inr (a @ b)))"
  by (induction xs) (simp_all split: sum.splits)

lemma map_err_total:
  "(\<And>x. x \<in> set xs \<Longrightarrow> \<exists>y. f x = Inr y) \<Longrightarrow> \<exists>ys. map_err f xs = Inr ys"
proof (induction xs)
  case Nil
  then show ?case by simp
next
  case (Cons x xs)
  from Cons.prems [of x] obtain y where "f x = Inr y" by auto
  moreover from Cons obtain ys where "map_err f xs = Inr ys" by auto
  ultimately show ?case by simp
qed

lemma chunks_Nil [simp]: "chunks n [] = []"
  by (simp add: chunks.simps)

lemma chunks_short:
  assumes "xs \<noteq> []" and "length xs \<le> n"
  shows "chunks n xs = [xs]"
proof -
  from assms have "n \<noteq> 0" by (cases xs) auto
  with assms show ?thesis by (subst chunks.simps) simp
qed

lemma concat_chunks: "0 < n \<Longrightarrow> concat (chunks n xs) = xs"
proof (induction n xs rule: chunks.induct)
  case (1 n xs)
  show ?case
  proof (cases "xs = []")
    case True
    then show ?thesis by simp
  next
    case False
    with 1 have "concat (chunks n (drop n xs)) = drop n xs" by simp
    with False 1(2) show ?thesis
      by (subst chunks.simps) simp
  qed
qed

lemma batch_loop_rows:
  assumes "batch_loop br (zip (map fst batch)
                              (map (\<lambda>row. fst (snd row)) batch))
             = Inr (tokens, bio_tags)"
    and "map_err (map_err (map_get label2id)) bio_tags = Inr ids"
  shows "map_err (convert_row br label2id) (filter (\<lambda>row. fst (snd row) \<noteq> []) batch)
           = Inr (zip tokens (zip ids (map (\<lambda>row. snd (snd row))
                    (filter (\<lambda>row. fst (snd row) \<noteq> []) batch))))
         \<and> length tokens = length (filter (\<lambda>row. fst (snd row) \<noteq> []) batch)
         \<and> length ids = length tokens"
  using assms
proof (induction batch arbitrary: tokens bio_tags ids)
  case Nil
  then show ?case by auto
next
  case (Cons row batch)
  obtain t l r where row: "row = (t, l, r)" by (cases row)
  show ?case
  proof (cases "l = []")
    case True
    with Cons.prems have "batch_loop br (zip (map fst batch)
                              (map (\<lambda>row. fst (snd row)) batch))
             = Inr (tokens, bio_tags)"
      by (simp add: row)
    from Cons.IH [OF this Cons.prems(2)] True show ?thesis
      by (simp add: row)
  next
    case False
    with Cons.prems(1) obtain toks tags tokens' bio_tags' where
      c: "convert_example br t l = Inr (toks, tags)"
      and b: "batch_loop br (zip (map fst batch)
                              (map (\<lambda>row. fst (snd row)) batch))
             = Inr (tokens', bio_tags')"
      and e: "tokens = toks # tokens'" "bio_tags = tags # bio_tags'"
      by (auto simp: row split: sum.splits)
    from Cons.prems(2) e obtain i ids' where
      i: "map_err (map_get label2id) tags = Inr i"
      and m: "map_err (map_err (map_get label2id)) bio_tags' = Inr ids'"
      and ids: "ids = i # ids'"
      by (auto split: sum.splits)
    from c i have "convert_row br label2id row = Inr (toks, i, r)"
      by (simp add: convert_row_def row)
    with Cons.IH [OF b m] False e ids show ?thesis
      by (simp add: row)
  qed
qed

lemma labels_to_spans_batch_rows:
  assumes "labels_to_spans_batch br label2id (map fst batch)
             (map (\<lambda>row. fst (snd row)) batch) = Inr (tokens, ids)"
  shows "map_err (convert_row br label2id) (filter (\<lambda>row. fst (snd row) \<noteq> []) batch)
           = Inr (zip tokens (zip ids (map (\<lambda>row. snd (snd row))
                    (filter (\<lambda>row. fst (snd row) \<noteq> []) batch))))"
    and "length tokens = length (filter (\<lambda>row. fst (snd row) \<noteq> []) batch)"
    and "length ids = length tokens"
proof -
  from assms obtain bio_tags where
    "batch_loop br (zip (map fst batch)
                              (map (\<lambda>row. fst (snd row)) batch))
             = Inr (tokens, bio_tags)"
    "map_err (map_err (map_get label2id)) bio_tags = Inr ids"
    by (auto simp: labels_to_spans_batch_def split: sum.splits)
  from batch_loop_rows [OF this]
  show "map_err (convert_row br label2id) (filter (\<lambda>row. fst (snd row) \<noteq> []) batch)
           = Inr (zip tokens (zip ids (map (\<lambda>row. snd (snd row))
                    (filter (\<lambda>row. fst (snd row) \<noteq> []) batch))))"
    and "length tokens = length (filter (\<lambda>row. fst (snd row) \<noteq> []) batch)"
    and "length ids = length tokens"
    by simp_all
qed

lemma map_batches_Inr:
  "map_batches br label2id batches = Inr rows \<Longrightarrow>
   map_err (convert_row br label2id)
     (filter (\<lambda>row. fst (snd row) \<noteq> []) (concat batches)) = Inr rows
   \<and> list_all (\<lambda>batch. filter (\<lambda>row. fst (snd row) \<noteq> []) batch = []
                   \<or> filter (\<lambda>row. fst (snd row) \<noteq> []) batch = batch) batches"
proof (induction batches arbitrary: rows)
  case Nil
  then show ?case by simp
next
  case (Cons batch batches)
  let ?F = "filter (\<lambda>row. fst (snd row) \<noteq> []) batch"
  from Cons.prems obtain tokens ids where
    cb: "labels_to_spans_batch br label2id (map fst batch)
             (map (\<lambda>row. fst (snd row)) batch) = Inr (tokens, ids)"
    by (auto split: sum.splits)
  note r = labels_to_spans_batch_rows [OF cb]
  show ?case
  proof (cases "tokens = []")
    case True
    with Cons.prems cb have "map_batches br label2id batches = Inr rows" by simp
    from Cons.IH [OF this] r True show ?thesis
      by (simp add: map_err_append)
  next
    case False
    with Cons.prems cb obtain rows' where
      len: "length tokens = length batch" "length ids = length batch"
      and m: "map_batches br label2id batches = Inr rows'"
      and rows: "rows = zip tokens (zip ids (map (\<lambda>row. snd (snd row)) batch)) @ rows'"
      by (auto split: sum.splits if_splits)
    from r(2) len have "length ?F = length batch" by simp
    then have F: "?F = batch" by (rule filter_length_eq)
    from r(1) have "map_err (convert_row br label2id) batch
           = Inr (zip tokens (zip ids (map (\<lambda>row. snd (snd row)) batch)))"
      unfolding F .
    with Cons.IH [OF m] rows F show ?thesis
      by (simp add: map_err_append)
  qed
qed

lemma spans_to_token_labels_Inr:
  assumes "spans_to_token_labels br dataset id2label = Inr out"
  shows "\<exists>rows. map_err (convert_row br (label2id_of id2label))
                  (filter (\<lambda>row. fst (snd row) \<noteq> []) dataset) = Inr rows
            \<and> out = filter (\<lambda>(toks, ids, rest). toks \<noteq> []) rows"
    and "list_all (\<lambda>batch. filter (\<lambda>row. fst (snd row) \<noteq> []) batch = []
                   \<or> filter (\<lambda>row. fst (snd row) \<noteq> []) batch = batch)
           (chunks 1000 dataset)"
proof -
  from assms obtain rows where
    m: "map_batches br (label2id_of id2label) (chunks 1000 dataset) = Inr rows"
    and out: "out = filter (\<lambda>(toks, tag_ids, rest). length toks > 0) rows"
    by (auto simp: spans_to_token_labels_def Let_def split: sum.splits if_splits)
  from map_batches_Inr [OF m]
  have r: "map_err (convert_row br (label2id_of id2label))
             (filter (\<lambda>row. fst (snd row) \<noteq> []) dataset) = Inr rows"
    and l: "list_all (\<lambda>batch. filter (\<lambda>row. fst (snd row) \<noteq> []) batch = []
                   \<or> filter (\<lambda>row. fst (snd row) \<noteq> []) batch = batch)
           (chunks 1000 dataset)"
    by (simp_all add: concat_chunks)
  have "out = filter (\<lambda>(toks, ids, rest). toks \<noteq> []) rows"
    unfolding out by (rule arg_cong [where f = "\<lambda>P. filter P rows"]) auto
  with r show "\<exists>rows. map_err (convert_row br (label2id_of id2label))
                  (filter (\<lambda>row. fst (snd row) \<noteq> []) dataset) = Inr rows
            \<and> out = filter (\<lambda>(toks, ids, rest). toks \<noteq> []) rows"
    by blast
  from l show "list_all (\<lambda>batch. filter (\<lambda>row. fst (snd row) \<noteq> []) batch = []
                   \<or> filter (\<lambda>row. fst (snd row) \<noteq> []) batch = batch)
           (chunks 1000 dataset)" .
qed

lemma spans_to_token_labels_single:
  assumes "str_label \<noteq> []"
    and "convert_example br text str_label = Inr (toks, tags)"
    and "map_err (map_get (label2id_of id2label)) tags = Inr ids"
  shows "spans_to_token_labels br [(text, str_label, rest)] id2label
           = Inr (if toks = [] then [] else [(toks, ids, rest)])"
  using assms
  by (simp add: spans_to_token_labels_def chunks_short labels_to_spans_batch_def)

lemma batch_loop_total:
  assumes "\<And>text str_label rest. (text, str_label, rest) \<in> set batch \<Longrightarrow>
             str_label \<noteq> [] \<and> (\<exists>y. convert_row br label2id (text, str_label, rest) = Inr y)"
  shows "\<exists>tokens ids. labels_to_spans_batch br label2id
             (map fst batch)
             (map (\<lambda>row. fst (snd row)) batch) = Inr (tokens, ids)
           \<and> length tokens = length batch \<and> length ids = length batch"
  using assms
proof (induction batch)
  case Nil
  then show ?case by (simp add: labels_to_spans_batch_def)
next
  case (Cons row batch)
  obtain t l r where row: "row = (t, l, r)" by (cases row)
  from Cons.prems [of t l r] obtain toks ids where nl: "l \<noteq> []"
    and cr: "convert_row br label2id (t, l, r) = Inr (toks, ids, r)"
    by (auto simp: row convert_row_def split: sum.splits)
  then obtain tags where c: "convert_example br t l = Inr (toks, tags)"
    and i: "map_err (map_get label2id) tags = Inr ids"
    by (auto simp: convert_row_def split: sum.splits)
  have "\<exists>tokens ids. labels_to_spans_batch br label2id
             (map fst batch)
             (map (\<lambda>row. fst (snd row)) batch) = Inr (tokens, ids)
           \<and> length tokens = length batch \<and> length ids = length batch"
    by (rule Cons.IH) (rule Cons.prems, simp)
  then obtain tokens' ids' bio_tags' where
    b: "batch_loop br (zip (map fst batch)
                              (map (\<lambda>row. fst (snd row)) batch))
             = Inr (tokens', bio_tags')"
    and m: "map_err (map_err (map_get label2id)) bio_tags' = Inr ids'"
    and len: "length tokens' = length batch" "length ids' = length batch"
    by (auto simp: labels_to_spans_batch_def split: sum.splits)
  from nl c i b m len show ?case
    by (intro exI [of _ "toks # tokens'"] exI [of _ "ids # ids'"])
       (simp add: labels_to_spans_batch_def row)
qed

lemma dom_fold_label2id:
  "dom (fold (\<lambda>(k, v) label2id. label2id(v \<mapsto> k)) xs m) = dom m \<union> snd ` set xs"
  by (induction xs arbitrary: m) (auto simp: rev_image_eqI)

lemma dom_label2id_of: "dom (label2id_of id2label) = snd ` set id2label"
  by (simp add: label2id_of_def dom_fold_label2id)

lemma map_get_tags_total:
  assumes "set tags \<subseteq> snd ` set id2label"
  shows "\<exists>ids. map_err (map_get (label2id_of id2label)) tags = Inr ids"
proof (rule map_err_total)
  fix tag assume "tag \<in> set tags"
  with assms have "tag \<in> dom (label2id_of id2label)"
    by (auto simp: dom_label2id_of)
  then show "\<exists>y. map_get (label2id_of id2label) tag = Inr y"
    by (auto simp: map_get_def)
qed

lemma convert_example_tags:
  "collect_spans text str_label = Inr spans \<Longrightarrow>
   bio_tags_of br (nlp br text) spans = Inr tags \<Longrightarrow>
   convert_example br text str_label = Inr (words_of br (nlp br text), tags)"
  by (simp add: convert_example_def)

section \<open>The spans found in the text\<close>

lemma first_occurrence_Some_iff:
  "first_occurrence e t = Some i \<longleftrightarrow>
     i + length e \<le> length t \<and> slice t i (i + length e) = e
     \<and> (\<forall>j<i. slice t j (j + length e) \<noteq> e)"
proof
  assume "first_occurrence e t = Some i"
  then have "find_sub e t = Some i" by (simp add: find_sub_first_occurrence)
  from find_sub_Some_slice [OF this]
  show "i + length e \<le> length t \<and> slice t i (i + length e) = e
     \<and> (\<forall>j<i. slice t j (j + length e) \<noteq> e)"
    by simp
next
  assume r: "i + length e \<le> length t \<and> slice t i (i + length e) = e
     \<and> (\<forall>j<i. slice t j (j + length e) \<noteq> e)"
  show "first_occurrence e t = Some i"
  proof (cases "find_sub e t")
    case None
    from find_sub_None_slice [OF this, of i] r show ?thesis by simp
  next
    case (Some k)
    note k = find_sub_Some_slice [OF Some]
    have "k = i"
    proof (rule linorder_cases [of k i])
      assume "k < i"
      with r k(1) show ?thesis by blast
    next
      assume "i < k"
      with r k(3) show ?thesis by blast
    qed
    with Some show ?thesis by (simp add: find_sub_first_occurrence)
  qed
qed

lemma first_occurrence_None_iff:
  "first_occurrence e t = None \<longleftrightarrow> (\<forall>j. slice t j (j + length e) \<noteq> e)"
proof
  assume "first_occurrence e t = None"
  then have "find_sub e t = None" by (simp add: find_sub_first_occurrence)
  then show "\<forall>j. slice t j (j + length e) \<noteq> e"
    by (simp add: find_sub_None_slice)
next
  assume a: "\<forall>j. slice t j (j + length e) \<noteq> e"
  show "first_occurrence e t = None"
  proof (cases "find_sub e t")
    case None
    then show ?thesis by (simp add: find_sub_first_occurrence)
  next
    case (Some k)
    from find_sub_Some_slice(1) [OF this] a show ?thesis by blast
  qed
qed

text \<open>
  C3. The spans the backward converter collects from a label string are the spans the
  specification describes: the string is cut into lines, each line at \<open>->\<close> into the
  entity type and the span strings, and each span string, trimmed and lower-cased,
  contributes the span \<open>(start, end, type)\<close> of its first occurrence in the lower-cased
  text, or nothing when it does not occur, the spans of the other span strings being
  collected all the same. The search is for the string itself: the first occurrence is
  the least offset at which the text holds the string character by character. The
  collection fails only for a line that does not hold \<open>->\<close> exactly once. The collected
  spans are what is handed to the tag computation of the example, and for a dataset of
  one example the converter returns the tokens with the ids of the tags computed from
  exactly these spans.
\<close>

theorem spans_to_token_labels_first_occurrence:
  "(collect_spans text str_label = Inr spans \<longleftrightarrow>
      well_formed_label str_label \<and> spans = spec_spans text str_label)
   \<and> (well_formed_label str_label \<longrightarrow>
        convert_example br text str_label =
          (case bio_tags_of br (nlp br text) (spec_spans text str_label) of
             Inr tags \<Rightarrow> Inr (words_of br (nlp br text), tags)
           | Inl ValueError \<Rightarrow> Inr ([], [])
           | Inl e \<Rightarrow> Inl e))
   \<and> (str_label \<noteq> [] \<and> well_formed_label str_label
        \<and> bio_tags_of br (nlp br text) (spec_spans text str_label) = Inr tags
        \<and> map_err (map_get (label2id_of id2label)) tags = Inr ids
        \<and> words_of br (nlp br text) \<noteq> [] \<longrightarrow>
        spans_to_token_labels br [(text, str_label, rest)] id2label
          = Inr [(words_of br (nlp br text), ids, rest)])
   \<and> (first_occurrence e t = Some i \<longleftrightarrow>
        i + length e \<le> length t \<and> slice t i (i + length e) = e
        \<and> (\<forall>j<i. slice t j (j + length e) \<noteq> e))
   \<and> (first_occurrence e t = None \<longleftrightarrow> (\<forall>j. slice t j (j + length e) \<noteq> e))"
proof (intro conjI impI)
  show "collect_spans text str_label = Inr spans \<longleftrightarrow>
      well_formed_label str_label \<and> spans = spec_spans text str_label"
    by (rule collect_spans_iff)
  show "convert_example br text str_label =
          (case bio_tags_of br (nlp br text) (spec_spans text str_label) of
             Inr tags \<Rightarrow> Inr (words_of br (nlp br text), tags)
           | Inl ValueError \<Rightarrow> Inr ([], [])
           | Inl e \<Rightarrow> Inl e)" if "well_formed_label str_label"
    using that by (rule convert_example_spec)
  show "spans_to_token_labels br [(text, str_label, rest)] id2label
          = Inr [(words_of br (nlp br text), ids, rest)]"
    if h: "str_label \<noteq> [] \<and> well_formed_label str_label
        \<and> bio_tags_of br (nlp br text) (spec_spans text str_label) = Inr tags
        \<and> map_err (map_get (label2id_of id2label)) tags = Inr ids
        \<and> words_of br (nlp br text) \<noteq> []"
  proof -
    from h have "convert_example br text str_label = Inr (words_of br (nlp br text), tags)"
      by (simp add: convert_example_spec)
    with h show ?thesis
      by (simp add: spans_to_token_labels_single)
  qed
  show "first_occurrence e t = Some i \<longleftrightarrow>
        i + length e \<le> length t \<and> slice t i (i + length e) = e
        \<and> (\<forall>j<i. slice t j (j + length e) \<noteq> e)"
    by (rule first_occurrence_Some_iff)
  show "first_occurrence e t = None \<longleftrightarrow> (\<forall>j. slice t j (j + length e) \<noteq> e)"
    by (rule first_occurrence_None_iff)
qed

theorem spans_to_token_labels_first_occurrence_witness:
  "well_formed_label (''PER -> John, Paris'' @ [CHR 0x0A] @ ''LOC -> Berlin'')
   \<and> spec_spans ''John lives in Berlin'' (''PER -> John, Paris'' @ [CHR 0x0A] @ ''LOC -> Berlin'')
       = [(0, 4, ''PER''), (14, 20, ''LOC'')]
   \<and> collect_spans ''John lives in Berlin'' (''PER -> John, Paris'' @ [CHR 0x0A] @ ''LOC -> Berlin'')
       = Inr [(0, 4, ''PER''), (14, 20, ''LOC'')]
   \<and> convert_example (lib_bridge space_tokenizer) ''John lives in Berlin''
        (''PER -> John, Paris'' @ [CHR 0x0A] @ ''LOC -> Berlin'')
       = Inr ([''John'', ''lives'', ''in'', ''Berlin''], [''B-PER'', ''O'', ''O'', ''B-LOC''])
   \<and> spans_to_token_labels (lib_bridge space_tokenizer)
        [(''John lives in Berlin'', ''PER -> John, Paris'' @ [CHR 0x0A] @ ''LOC -> Berlin'', ())]
        [(0::nat, ''O''), (1, ''B-PER''), (2, ''I-PER''), (3, ''B-LOC''), (4, ''I-LOC'')]
       = Inr [([''John'', ''lives'', ''in'', ''Berlin''], [1, 0, 0, 3], ())]
   \<and> first_occurrence ''berlin'' ''john lives in berlin'' = Some 14
   \<and> first_occurrence ''paris'' ''john lives in berlin'' = None"
proof -
  let ?br = "lib_bridge space_tokenizer"
  let ?T = "''John lives in Berlin''"
  let ?L = "''PER -> John, Paris'' @ [CHR 0x0A] @ ''LOC -> Berlin''"
  let ?V = "[(0::nat, ''O''), (1, ''B-PER''), (2, ''I-PER''), (3, ''B-LOC''), (4, ''I-LOC'')]"
  let ?tags = "[''B-PER'', ''O'', ''O'', ''B-LOC'']"
  have wf: "well_formed_label ?L" by code_simp
  have sp: "spec_spans ?T ?L = [(0, 4, ''PER''), (14, 20, ''LOC'')]" by code_simp
  have bt: "bio_tags_of ?br (nlp ?br ?T) (spec_spans ?T ?L) = Inr ?tags" by code_simp
  have ids: "map_err (map_get (label2id_of ?V)) ?tags = Inr [1, 0, 0, 3]" by code_simp
  have ws: "words_of ?br (nlp ?br ?T) = [''John'', ''lives'', ''in'', ''Berlin'']" by code_simp
  have ne: "?L \<noteq> []" by simp
  have fo: "first_occurrence ''berlin'' ''john lives in berlin'' = Some 14" by code_simp
  have fn: "first_occurrence ''paris'' ''john lives in berlin'' = None" by code_simp
  note inst = spans_to_token_labels_first_occurrence
    [of ?T ?L "[(0, 4, ''PER''), (14, 20, ''LOC'')]" ?br ?tags ?V "[1, 0, 0, 3]" "()"
        "''berlin''" "''john lives in berlin''" 14]
  have wsne: "words_of ?br (nlp ?br ?T) \<noteq> []" unfolding ws by simp
  from inst [THEN conjunct1, THEN iffD2, OF conjI [OF wf sp [symmetric]]]
  have c: "collect_spans ?T ?L = Inr [(0, 4, ''PER''), (14, 20, ''LOC'')]" .
  from inst [THEN conjunct2, THEN conjunct1, rule_format, OF wf]
  have ce: "convert_example ?br ?T ?L
       = Inr ([''John'', ''lives'', ''in'', ''Berlin''], ?tags)"
    by (simp only: bt ws sum.case)
  from inst [THEN conjunct2, THEN conjunct2, THEN conjunct1, rule_format,
      OF conjI [OF ne conjI [OF wf conjI [OF bt conjI [OF ids wsne]]]]]
  have r: "spans_to_token_labels ?br [(?T, ?L, ())] ?V
       = Inr [([''John'', ''lives'', ''in'', ''Berlin''], [1, 0, 0, 3], ())]"
    by (simp only: ws)
  from wf sp c ce r fo fn show ?thesis by blast
qed

section \<open>Examples without a label\<close>

lemma spans_to_token_labels_mixed_batch:
  assumes "length dataset \<le> 1000"
    and "(t1, [], r1) \<in> set dataset" and "(t2, l2, r2) \<in> set dataset" and "l2 \<noteq> []"
  shows "spans_to_token_labels br dataset id2label \<noteq> Inr out"
proof
  assume "spans_to_token_labels br dataset id2label = Inr out"
  from spans_to_token_labels_Inr(2) [OF this]
  have l: "list_all (\<lambda>batch. filter (\<lambda>row. fst (snd row) \<noteq> []) batch = []
                   \<or> filter (\<lambda>row. fst (snd row) \<noteq> []) batch = batch)
           (chunks 1000 dataset)" .
  from assms(2) have "dataset \<noteq> []" by auto
  with assms(1) have "chunks 1000 dataset = [dataset]" by (simp add: chunks_short)
  with l consider "filter (\<lambda>row. fst (snd row) \<noteq> []) dataset = []"
    | "filter (\<lambda>row. fst (snd row) \<noteq> []) dataset = dataset"
    by auto
  then show False
  proof cases
    case 1
    from assms(3,4) have "(t2, l2, r2) \<in> set (filter (\<lambda>row. fst (snd row) \<noteq> []) dataset)"
      by simp
    with 1 show False by simp
  next
    case 2
    from assms(2) have "(t1, [], r1) \<in> set (filter (\<lambda>row. fst (snd row) \<noteq> []) dataset)"
      unfolding 2 .
    then show False by simp
  qed
qed

text \<open>
  C4. An example whose label string is empty is meant to be dropped, the other examples
  staying as they are. The loop skips such an example without appending a token list or
  a tag list for it, so for a batch that also holds an example with a label the
  callback returns a token column and a tag column that are shorter than the batch, next
  to the label-string column that still has one entry per row. The dataset library
  refuses columns of different lengths: the call ends with its error and returns no
  dataset. This is so for every dataset of at most one batch (1000 rows) that holds an
  example with an empty label string and an example with a label.
\<close>

theorem spans_to_token_labels_empty_label:
  "labels_to_spans_batch (spec_bridge space_tokenizer)
         (label2id_of [(0::nat, ''O''), (1, ''B-PER''), (2, ''I-PER'')])
         [''Anna sings'', ''John lives in Berlin''] ['''', ''PER -> John'']
       = Inr ([[''John'', ''lives'', ''in'', ''Berlin'']], [[1, 0, 0, 0]])
   \<and> spans_to_token_labels (spec_bridge space_tokenizer)
         [(''Anna sings'', '''', ()), (''John lives in Berlin'', ''PER -> John'', ())]
         [(0::nat, ''O''), (1, ''B-PER''), (2, ''I-PER'')]
       = Inl DatasetError
   \<and> (length dataset \<le> 1000 \<and> (t1, [], r1) \<in> set dataset
        \<and> (t2, l2, r2) \<in> set dataset \<and> l2 \<noteq> [] \<longrightarrow>
       spans_to_token_labels br dataset id2label \<noteq> Inr out)"
proof (intro conjI impI)
  show "labels_to_spans_batch (spec_bridge space_tokenizer)
         (label2id_of [(0::nat, ''O''), (1, ''B-PER''), (2, ''I-PER'')])
         [''Anna sings'', ''John lives in Berlin''] ['''', ''PER -> John'']
       = Inr ([[''John'', ''lives'', ''in'', ''Berlin'']], [[1, 0, 0, 0]])"
    by code_simp
  show "spans_to_token_labels (spec_bridge space_tokenizer)
         [(''Anna sings'', '''', ()), (''John lives in Berlin'', ''PER -> John'', ())]
         [(0::nat, ''O''), (1, ''B-PER''), (2, ''I-PER'')]
       = Inl DatasetError"
    by code_simp
  show "spans_to_token_labels br dataset id2label \<noteq> Inr out"
    if "length dataset \<le> 1000 \<and> (t1, [], r1) \<in> set dataset
        \<and> (t2, l2, r2) \<in> set dataset \<and> l2 \<noteq> []"
    using that by (intro spans_to_token_labels_mixed_batch [of dataset t1 r1 t2 l2 r2]) simp_all
qed

theorem spans_to_token_labels_empty_label_witness:
  "length [(''John lives in Berlin'', ''PER -> John'', ()), (''Anna sings'', '''', ()),
           (''Paul sleeps'', ''PER -> Paul'', ())] \<le> 1000
   \<and> ''PER -> John'' \<noteq> []
   \<and> spans_to_token_labels (lib_bridge space_tokenizer)
        [(''John lives in Berlin'', ''PER -> John'', ()), (''Anna sings'', '''', ()),
         (''Paul sleeps'', ''PER -> Paul'', ())]
        [(0::nat, ''O''), (1, ''B-PER''), (2, ''I-PER'')]
       = Inl DatasetError
   \<and> spans_to_token_labels (lib_bridge space_tokenizer)
        [(''John lives in Berlin'', ''PER -> John'', ()), (''Anna sings'', '''', ()),
         (''Paul sleeps'', ''PER -> Paul'', ())]
        [(0::nat, ''O''), (1, ''B-PER''), (2, ''I-PER'')]
       \<noteq> Inr [([''John'', ''lives'', ''in'', ''Berlin''], [1, 0, 0, 0], ()),
              ([''Paul'', ''sleeps''], [1, 0], ())]"
proof -
  let ?ds = "[(''John lives in Berlin'', ''PER -> John'', ()), (''Anna sings'', '''', ()),
           (''Paul sleeps'', ''PER -> Paul'', ())]"
  have len: "length ?ds \<le> 1000" by simp
  have ne: "''PER -> John'' \<noteq> []" by simp
  have m1: "(''Anna sings'', [], ()) \<in> set ?ds" by simp
  have m2: "(''John lives in Berlin'', ''PER -> John'', ()) \<in> set ?ds" by simp
  from spans_to_token_labels_empty_label
    [THEN conjunct2, THEN conjunct2, rule_format, OF conjI [OF len conjI [OF m1 conjI [OF m2 ne]]]]
  have "spans_to_token_labels (lib_bridge space_tokenizer) ?ds
        [(0::nat, ''O''), (1, ''B-PER''), (2, ''I-PER'')]
       \<noteq> Inr [([''John'', ''lives'', ''in'', ''Berlin''], [1, 0, 0, 0], ()),
              ([''Paul'', ''sleeps''], [1, 0], ())]" .
  moreover have "spans_to_token_labels (lib_bridge space_tokenizer) ?ds
        [(0::nat, ''O''), (1, ''B-PER''), (2, ''I-PER'')] = Inl DatasetError"
    by code_simp
  ultimately show ?thesis using len ne by blast
qed

section \<open>Examples whose tag computation fails\<close>

text \<open>
  C5, as stated, fails: a span whose offsets do not meet the token boundaries does not
  make the tag computation fail. The library gives the tokens of such a span the tag
  \<open>-\<close>, the tag list comes back, and the lookup of \<open>-\<close> in \<open>label2id\<close>, which is
  outside the \<open>try\<close>, raises KeyError: the example is not emptied and the call returns
  no dataset.
\<close>

theorem spans_to_token_labels_misaligned_span:
  "collect_spans ''John lives in Berlin'' ''PER -> Joh'' = Inr [(0, 3, ''PER'')]
   \<and> bio_tags_of (lib_bridge space_tokenizer)
        (nlp (lib_bridge space_tokenizer) ''John lives in Berlin'') [(0, 3, ''PER'')]
       = Inr [''-'', ''O'', ''O'', ''O'']
   \<and> convert_example (lib_bridge space_tokenizer) ''John lives in Berlin'' ''PER -> Joh''
       = Inr ([''John'', ''lives'', ''in'', ''Berlin''], [''-'', ''O'', ''O'', ''O''])
   \<and> spans_to_token_labels (lib_bridge space_tokenizer)
        [(''John lives in Berlin'', ''PER -> Joh'', ())]
        [(0::nat, ''O''), (1, ''B-PER''), (2, ''I-PER'')]
       = Inl KeyError"
  by code_simp

text \<open>
  C5, amended. When the computation of the BIO tags from the collected spans raises
  ValueError (the library raises it for spans that overlap), the example gets the empty
  token list and the empty tag list and no exception is raised for it; a dataset of this
  one example comes back without rows. Whenever \<open>spans_to_token_labels\<close> returns, its
  result is the list of the converted rows of the examples that have a label, without
  the rows whose token list is empty; so an example that was emptied is not in the
  output.
\<close>

theorem spans_to_token_labels_failed_alignment:
  "(well_formed_label str_label
      \<and> bio_tags_of br (nlp br text) (spec_spans text str_label) = Inl ValueError \<longrightarrow>
    convert_example br text str_label = Inr ([], [])
    \<and> convert_row br label2id (text, str_label, rest) = Inr ([], [], rest))
   \<and> (str_label \<noteq> [] \<and> well_formed_label str_label
      \<and> bio_tags_of br (nlp br text) (spec_spans text str_label) = Inl ValueError \<longrightarrow>
    spans_to_token_labels br [(text, str_label, rest)] id2label = Inr [])
   \<and> (spans_to_token_labels br dataset id2label = Inr out \<longrightarrow>
       (\<exists>rows. map_err (convert_row br (label2id_of id2label))
                  (filter (\<lambda>(text, str_label, rest). str_label \<noteq> []) dataset) = Inr rows
          \<and> out = filter (\<lambda>(toks, ids, rest). toks \<noteq> []) rows))"
proof (intro conjI impI)
  assume h: "well_formed_label str_label
      \<and> bio_tags_of br (nlp br text) (spec_spans text str_label) = Inl ValueError"
  then show c: "convert_example br text str_label = Inr ([], [])"
    by (simp add: convert_example_spec)
  then show "convert_row br label2id (text, str_label, rest) = Inr ([], [], rest)"
    by (simp add: convert_row_def)
next
  assume h: "str_label \<noteq> [] \<and> well_formed_label str_label
      \<and> bio_tags_of br (nlp br text) (spec_spans text str_label) = Inl ValueError"
  then have c: "convert_example br text str_label = Inr ([], [])"
    by (simp add: convert_example_spec)
  have m: "map_err (map_get (label2id_of id2label)) [] = Inr []" by simp
  from h have ne: "str_label \<noteq> []" by simp
  from spans_to_token_labels_single [OF ne c m]
  show "spans_to_token_labels br [(text, str_label, rest)] id2label = Inr []"
    by simp
next
  assume "spans_to_token_labels br dataset id2label = Inr out"
  note r = spans_to_token_labels_Inr(1) [OF this]
  have eq: "(\<lambda>(text, str_label, rest). str_label \<noteq> []) = (\<lambda>row. fst (snd row) \<noteq> [])"
    by (simp add: fun_eq_iff)
  show "\<exists>rows. map_err (convert_row br (label2id_of id2label))
                  (filter (\<lambda>(text, str_label, rest). str_label \<noteq> []) dataset) = Inr rows
          \<and> out = filter (\<lambda>(toks, ids, rest). toks \<noteq> []) rows"
    unfolding eq by (rule r)
qed

theorem spans_to_token_labels_failed_alignment_witness:
  "well_formed_label ''PER -> John, John''
   \<and> spec_spans ''John lives in Berlin'' ''PER -> John, John'' = [(0, 4, ''PER''), (0, 4, ''PER'')]
   \<and> bio_tags_of (lib_bridge space_tokenizer)
        (nlp (lib_bridge space_tokenizer) ''John lives in Berlin'')
        [(0, 4, ''PER''), (0, 4, ''PER'')] = Inl ValueError
   \<and> convert_example (lib_bridge space_tokenizer) ''John lives in Berlin'' ''PER -> John, John''
       = Inr ([], [])
   \<and> spans_to_token_labels (lib_bridge space_tokenizer)
        [(''John lives in Berlin'', ''PER -> John, John'', ())]
        [(0::nat, ''O''), (1, ''B-PER''), (2, ''I-PER'')] = Inr []
   \<and> spans_to_token_labels (lib_bridge space_tokenizer)
        [(''John lives in Berlin'', ''PER -> John, John'', ()), (''Anna sings'', ''PER -> Anna'', ())]
        [(0::nat, ''O''), (1, ''B-PER''), (2, ''I-PER'')]
       = Inr [([''Anna'', ''sings''], [1, 0], ())]
   \<and> map_err (convert_row (lib_bridge space_tokenizer)
                 (label2id_of [(0::nat, ''O''), (1, ''B-PER''), (2, ''I-PER'')]))
        [(''John lives in Berlin'', ''PER -> John, John'', ()), (''Anna sings'', ''PER -> Anna'', ())]
       = Inr [([], [], ()), ([''Anna'', ''sings''], [1, 0], ())]
   \<and> (\<exists>rows. map_err (convert_row (lib_bridge space_tokenizer)
                 (label2id_of [(0::nat, ''O''), (1, ''B-PER''), (2, ''I-PER'')]))
          (filter (\<lambda>(text, str_label, rest). str_label \<noteq> [])
             [(''John lives in Berlin'', ''PER -> John, John'', ()),
              (''Anna sings'', ''PER -> Anna'', ())]) = Inr rows
        \<and> [([''Anna'', ''sings''], [1, 0], ())] = filter (\<lambda>(toks, ids, rest). toks \<noteq> []) rows)"
proof -
  let ?br = "lib_bridge space_tokenizer"
  let ?T = "''John lives in Berlin''"
  let ?L = "''PER -> John, John''"
  let ?V = "[(0::nat, ''O''), (1, ''B-PER''), (2, ''I-PER'')]"
  let ?ds = "[(?T, ?L, ()), (''Anna sings'', ''PER -> Anna'', ())]"
  let ?out = "[([''Anna'', ''sings''], [1::nat, 0], ())]"
  have wf: "well_formed_label ?L" by code_simp
  have sp: "spec_spans ?T ?L = [(0, 4, ''PER''), (0, 4, ''PER'')]" by code_simp
  have bt: "bio_tags_of ?br (nlp ?br ?T) (spec_spans ?T ?L) = Inl ValueError" by code_simp
  have ne: "?L \<noteq> []" by simp
  have two: "spans_to_token_labels ?br ?ds ?V = Inr ?out" by code_simp
  have rows: "map_err (convert_row ?br (label2id_of ?V)) ?ds
       = Inr [([], [], ()), ([''Anna'', ''sings''], [1, 0], ())]" by code_simp
  note inst = spans_to_token_labels_failed_alignment
    [of ?L ?br ?T "label2id_of ?V" "()" ?V ?ds ?out]
  from inst [THEN conjunct1, rule_format, OF conjI [OF wf bt]]
  have ce: "convert_example ?br ?T ?L = Inr ([], [])" by simp
  from inst [THEN conjunct2, THEN conjunct1, rule_format, OF conjI [OF ne conjI [OF wf bt]]]
  have one: "spans_to_token_labels ?br [(?T, ?L, ())] ?V = Inr []" .
  from bt have bt': "bio_tags_of ?br (nlp ?br ?T) [(0, 4, ''PER''), (0, 4, ''PER'')] = Inl ValueError"
    unfolding sp .
  note ex = inst [THEN conjunct2, THEN conjunct2, rule_format, OF two]
  from wf sp bt' ce one two rows ex show ?thesis by blast
qed

section \<open>What the converters raise\<close>

lemma dict_get_total: "k \<in> fst ` set d \<Longrightarrow> \<exists>v. dict_get d k = Inr v"
  by (cases "map_of d k") (auto simp: dict_get_def map_of_eq_None_iff)

lemma labels_to_spans_total:
  assumes "set labels \<subseteq> fst ` set id2label"
    and "\<And>tags. map_err (dict_get id2label) labels = Inr tags \<Longrightarrow>
           \<exists>biluo offsets. iob_to_biluo br tags = Inr biluo
              \<and> biluo_tags_to_offsets br (Doc br tokens) biluo = Inr offsets"
  shows "\<exists>y. labels_to_spans br id2label (tokens, labels) = Inr y"
proof -
  have "\<exists>tags. map_err (dict_get id2label) labels = Inr tags"
    using assms(1) by (intro map_err_total dict_get_total) blast
  then obtain tags where t: "map_err (dict_get id2label) labels = Inr tags" ..
  from assms(2) [OF t] obtain biluo offsets where
    "iob_to_biluo br tags = Inr biluo"
    "biluo_tags_to_offsets br (Doc br tokens) biluo = Inr offsets"
    by blast
  with t show ?thesis
    by (simp add: labels_to_spans_def Let_def)
qed

lemma token_labels_to_spans_total:
  assumes "dataset \<noteq> []" and "''O'' \<in> strip_bio ` snd ` set id2label"
    and rows: "\<And>tokens labels rest. (tokens, labels, rest) \<in> set dataset \<Longrightarrow>
           set labels \<subseteq> fst ` set id2label
         \<and> (\<forall>tags. map_err (dict_get id2label) labels = Inr tags \<longrightarrow>
               (\<exists>biluo offsets. iob_to_biluo br tags = Inr biluo
                  \<and> biluo_tags_to_offsets br (Doc br tokens) biluo = Inr offsets))"
  shows "\<exists>out. token_labels_to_spans br dataset id2label = Inr out"
proof -
  from label_options_of_present [OF assms(2)] obtain opts where
    o: "label_options_of id2label = Inr opts" by blast
  let ?f = "\<lambda>(tokens, labels, rest).
                     case labels_to_spans br id2label (tokens, labels) of
                       Inl e \<Rightarrow> Inl e
                     | Inr (text, label) \<Rightarrow> Inr (text, label, rest)"
  have "\<exists>ys. map_err ?f dataset = Inr ys"
  proof (rule map_err_total)
    fix row assume m: "row \<in> set dataset"
    obtain tokens labels rest where row: "row = (tokens, labels, rest)" by (cases row)
    from rows [of tokens labels rest] m
    have "\<exists>y. labels_to_spans br id2label (tokens, labels) = Inr y"
      by (intro labels_to_spans_total) (auto simp: row)
    then show "\<exists>y. ?f row = Inr y"
      by (auto simp: row)
  qed
  then obtain ys where "map_err ?f dataset = Inr ys" ..
  with o assms(1) show ?thesis
    by (simp add: token_labels_to_spans_def)
qed

lemma spans_to_token_labels_total:
  assumes ne: "dataset \<noteq> []" and len: "length dataset \<le> 1000"
    and rows: "\<And>text str_label rest. (text, str_label, rest) \<in> set dataset \<Longrightarrow>
           str_label \<noteq> [] \<and> well_formed_label str_label
         \<and> (bio_tags_of br (nlp br text) (spec_spans text str_label) = Inl ValueError
            \<or> (\<exists>tags. bio_tags_of br (nlp br text) (spec_spans text str_label) = Inr tags
                   \<and> set tags \<subseteq> snd ` set id2label))"
  shows "\<exists>out. spans_to_token_labels br dataset id2label = Inr out"
proof -
  let ?l2i = "label2id_of id2label"
  have row: "l \<noteq> [] \<and> (\<exists>y. convert_row br ?l2i (t, l, r) = Inr y)"
    if m: "(t, l, r) \<in> set dataset" for t l r
  proof -
    from rows [OF m] have nl: "l \<noteq> []" and wf: "well_formed_label l"
      and tags: "bio_tags_of br (nlp br t) (spec_spans t l) = Inl ValueError
            \<or> (\<exists>tags. bio_tags_of br (nlp br t) (spec_spans t l) = Inr tags
                   \<and> set tags \<subseteq> snd ` set id2label)"
      by simp_all
    from tags have "\<exists>y. convert_row br ?l2i (t, l, r) = Inr y"
    proof
      assume "bio_tags_of br (nlp br t) (spec_spans t l) = Inl ValueError"
      with wf show ?thesis
        by (simp add: convert_row_def convert_example_spec)
    next
      assume "\<exists>tags. bio_tags_of br (nlp br t) (spec_spans t l) = Inr tags
                   \<and> set tags \<subseteq> snd ` set id2label"
      then obtain tags where b: "bio_tags_of br (nlp br t) (spec_spans t l) = Inr tags"
        and s: "set tags \<subseteq> snd ` set id2label" by blast
      from map_get_tags_total [OF s] obtain ids where
        "map_err (map_get ?l2i) tags = Inr ids" ..
      with wf b show ?thesis
        by (simp add: convert_row_def convert_example_spec)
    qed
    with nl show ?thesis ..
  qed
  from batch_loop_total [of dataset br ?l2i, OF row] obtain tokens ids where
    cb: "labels_to_spans_batch br ?l2i (map fst dataset) (map (\<lambda>row. fst (snd row)) dataset)
           = Inr (tokens, ids)"
    and l: "length tokens = length dataset" "length ids = length dataset"
    by blast
  from ne l have tne: "tokens \<noteq> []" "ids \<noteq> []" by auto
  from ne len have "chunks 1000 dataset = [dataset]" by (rule chunks_short)
  with cb l tne ne show ?thesis
    by (simp add: spans_to_token_labels_def)
qed

text \<open>
  C6, as stated, fails for both converters. In \<open>spans_to_token_labels\<close> a label line
  without the separator \<open>->\<close> raises ValueError at the unpacking of the split line, and
  an entity type outside the vocabulary raises KeyError at the lookup of the tag; in
  \<open>token_labels_to_spans\<close> a label id that is no key of \<open>id2label\<close> raises KeyError.
  On a dataset without rows both converters raise ValueError at the renaming of the
  column that was never made.
\<close>

theorem spans_to_token_labels_raises:
  "spans_to_token_labels (lib_bridge space_tokenizer)
     [(''John lives in Berlin'', ''John'', ())]
     [(0::nat, ''O''), (1, ''B-PER''), (2, ''I-PER'')] = Inl ValueError
   \<and> spans_to_token_labels (lib_bridge space_tokenizer)
     [(''John lives in Berlin'', ''PERSON -> John'', ())]
     [(0::nat, ''O''), (1, ''B-PER''), (2, ''I-PER'')] = Inl KeyError
   \<and> token_labels_to_spans (lib_bridge space_tokenizer)
     [([''John'', ''lives'', ''in'', ''Berlin''], [1, 0, 0, 7], ())]
     [(0::nat, ''O''), (1, ''B-PER''), (2, ''I-PER'')] = Inl KeyError
   \<and> spans_to_token_labels (lib_bridge space_tokenizer)
     ([] :: (string \<times> string \<times> unit) list)
     [(0::nat, ''O''), (1, ''B-PER''), (2, ''I-PER'')] = Inl ValueError
   \<and> token_labels_to_spans (lib_bridge space_tokenizer)
     ([] :: (string list \<times> nat list \<times> unit) list)
     [(0::nat, ''O''), (1, ''B-PER''), (2, ''I-PER'')] = Inl ValueError"
  by code_simp

text \<open>
  C6, amended. \<open>token_labels_to_spans\<close> returns, raising nothing, when the dataset has a
  row, \<open>O\<close> is among the stripped values of \<open>id2label\<close>, every label id is a key of
  \<open>id2label\<close> and the calls of the tag-scheme library return. \<open>spans_to_token_labels\<close>
  returns, raising nothing, when the dataset has a row and at most the rows of one batch
  (1000), no label string is empty, every line of every label string holds the
  separator \<open>->\<close> exactly once, and the tag computation of the library either raises
  ValueError or returns tags that are values of \<open>id2label\<close>. Span strings that do not
  occur in the text and ValueErrors of the tag computation are absorbed silently.
\<close>

theorem spans_to_token_labels_no_exception:
  "(dataset \<noteq> [] \<and> ''O'' \<in> strip_bio ` snd ` set id2label
      \<and> (\<forall>(tokens, labels, rest) \<in> set dataset.
            set labels \<subseteq> fst ` set id2label
          \<and> (\<forall>tags. map_err (dict_get id2label) labels = Inr tags \<longrightarrow>
                (\<exists>biluo offsets. iob_to_biluo br tags = Inr biluo
                   \<and> biluo_tags_to_offsets br (Doc br tokens) biluo = Inr offsets))) \<longrightarrow>
     (\<exists>out. token_labels_to_spans br dataset id2label = Inr out))
   \<and> (examples \<noteq> [] \<and> length examples \<le> 1000
      \<and> (\<forall>(text, str_label, rest) \<in> set examples.
            str_label \<noteq> [] \<and> well_formed_label str_label
          \<and> (bio_tags_of br (nlp br text) (spec_spans text str_label) = Inl ValueError
             \<or> (\<exists>tags. bio_tags_of br (nlp br text) (spec_spans text str_label) = Inr tags
                    \<and> set tags \<subseteq> snd ` set id2label))) \<longrightarrow>
     (\<exists>out. spans_to_token_labels br examples id2label = Inr out))"
proof (intro conjI impI)
  assume h: "dataset \<noteq> [] \<and> ''O'' \<in> strip_bio ` snd ` set id2label
      \<and> (\<forall>(tokens, labels, rest) \<in> set dataset.
            set labels \<subseteq> fst ` set id2label
          \<and> (\<forall>tags. map_err (dict_get id2label) labels = Inr tags \<longrightarrow>
                (\<exists>biluo offsets. iob_to_biluo br tags = Inr biluo
                   \<and> biluo_tags_to_offsets br (Doc br tokens) biluo = Inr offsets)))"
  show "\<exists>out. token_labels_to_spans br dataset id2label = Inr out"
  proof (rule token_labels_to_spans_total)
    from h show "dataset \<noteq> []" by simp
    from h show "''O'' \<in> strip_bio ` snd ` set id2label" by simp
    fix tokens labels rest assume "(tokens, labels, rest) \<in> set dataset"
    with h show "set labels \<subseteq> fst ` set id2label
         \<and> (\<forall>tags. map_err (dict_get id2label) labels = Inr tags \<longrightarrow>
               (\<exists>biluo offsets. iob_to_biluo br tags = Inr biluo
                  \<and> biluo_tags_to_offsets br (Doc br tokens) biluo = Inr offsets))"
      by blast
  qed
next
  assume h: "examples \<noteq> [] \<and> length examples \<le> 1000
      \<and> (\<forall>(text, str_label, rest) \<in> set examples.
            str_label \<noteq> [] \<and> well_formed_label str_label
          \<and> (bio_tags_of br (nlp br text) (spec_spans text str_label) = Inl ValueError
             \<or> (\<exists>tags. bio_tags_of br (nlp br text) (spec_spans text str_label) = Inr tags
                    \<and> set tags \<subseteq> snd ` set id2label)))"
  show "\<exists>out. spans_to_token_labels br examples id2label = Inr out"
  proof (rule spans_to_token_labels_total)
    from h show "examples \<noteq> []" by simp
    from h show "length examples \<le> 1000" by simp
    fix t l r assume "(t, l, r) \<in> set examples"
    with h show "l \<noteq> [] \<and> well_formed_label l
         \<and> (bio_tags_of br (nlp br t) (spec_spans t l) = Inl ValueError
            \<or> (\<exists>tags. bio_tags_of br (nlp br t) (spec_spans t l) = Inr tags
                   \<and> set tags \<subseteq> snd ` set id2label))"
      by blast
  qed
qed

theorem spans_to_token_labels_no_exception_witness:
  "map_err (dict_get [(0::nat, ''O''), (1, ''B-PER''), (2, ''I-PER''), (3, ''B-LOC''), (4, ''I-LOC'')])
       [1, 0, 0, 3] = Inr [''B-PER'', ''O'', ''O'', ''B-LOC'']
   \<and> iob_to_biluo (lib_bridge space_tokenizer) [''B-PER'', ''O'', ''O'', ''B-LOC'']
       = Inr [''U-PER'', ''O'', ''O'', ''U-LOC'']
   \<and> biluo_tags_to_offsets (lib_bridge space_tokenizer)
        (Doc (lib_bridge space_tokenizer) [''John'', ''lives'', ''in'', ''Berlin''])
        [''U-PER'', ''O'', ''O'', ''U-LOC''] = Inr [(0, 4, ''PER''), (14, 20, ''LOC'')]
   \<and> (\<exists>out. token_labels_to_spans (lib_bridge space_tokenizer)
               [([''John'', ''lives'', ''in'', ''Berlin''], [1, 0, 0, 3], ())]
               [(0::nat, ''O''), (1, ''B-PER''), (2, ''I-PER''), (3, ''B-LOC''), (4, ''I-LOC'')]
             = Inr out)
   \<and> well_formed_label ''PER -> John, Paris''
   \<and> bio_tags_of (lib_bridge space_tokenizer)
        (nlp (lib_bridge space_tokenizer) ''John lives in Berlin'')
        (spec_spans ''John lives in Berlin'' ''PER -> John, Paris'')
       = Inr [''B-PER'', ''O'', ''O'', ''O'']
   \<and> well_formed_label ''PER -> Anna, Anna''
   \<and> bio_tags_of (lib_bridge space_tokenizer)
        (nlp (lib_bridge space_tokenizer) ''Anna sings'')
        (spec_spans ''Anna sings'' ''PER -> Anna, Anna'')
       = Inl ValueError
   \<and> (\<exists>out. spans_to_token_labels (lib_bridge space_tokenizer)
               [(''John lives in Berlin'', ''PER -> John, Paris'', ()),
                (''Anna sings'', ''PER -> Anna, Anna'', ())]
               [(0::nat, ''O''), (1, ''B-PER''), (2, ''I-PER''), (3, ''B-LOC''), (4, ''I-LOC'')]
             = Inr out)
   \<and> spans_to_token_labels (lib_bridge space_tokenizer)
        [(''John lives in Berlin'', ''PER -> John, Paris'', ()),
         (''Anna sings'', ''PER -> Anna, Anna'', ())]
        [(0::nat, ''O''), (1, ''B-PER''), (2, ''I-PER''), (3, ''B-LOC''), (4, ''I-LOC'')]
       = Inr [([''John'', ''lives'', ''in'', ''Berlin''], [1, 0, 0, 0], ())]"
proof -
  let ?br = "lib_bridge space_tokenizer"
  let ?V = "[(0::nat, ''O''), (1, ''B-PER''), (2, ''I-PER''), (3, ''B-LOC''), (4, ''I-LOC'')]"
  let ?ws = "[''John'', ''lives'', ''in'', ''Berlin'']"
  let ?fwd = "[(?ws, [1::nat, 0, 0, 3], ())]"
  let ?bwd = "[(''John lives in Berlin'', ''PER -> John, Paris'', ()),
               (''Anna sings'', ''PER -> Anna, Anna'', ())]"
  have tg: "map_err (dict_get ?V) [1, 0, 0, 3] = Inr [''B-PER'', ''O'', ''O'', ''B-LOC'']"
    by code_simp
  have bl: "iob_to_biluo ?br [''B-PER'', ''O'', ''O'', ''B-LOC'']
              = Inr [''U-PER'', ''O'', ''O'', ''U-LOC'']"
    by code_simp
  have off: "biluo_tags_to_offsets ?br (Doc ?br ?ws) [''U-PER'', ''O'', ''O'', ''U-LOC'']
              = Inr [(0, 4, ''PER''), (14, 20, ''LOC'')]"
    by code_simp
  have o: "''O'' \<in> strip_bio ` snd ` set ?V"
    by (simp add: strip_bio_def)
  have wf1: "well_formed_label ''PER -> John, Paris''" by code_simp
  have wf2: "well_formed_label ''PER -> Anna, Anna''" by code_simp
  have bt1: "bio_tags_of ?br (nlp ?br ''John lives in Berlin'')
               (spec_spans ''John lives in Berlin'' ''PER -> John, Paris'')
             = Inr [''B-PER'', ''O'', ''O'', ''O'']"
    by code_simp
  have bt2: "bio_tags_of ?br (nlp ?br ''Anna sings'')
               (spec_spans ''Anna sings'' ''PER -> Anna, Anna'') = Inl ValueError"
    by code_simp
  have res: "spans_to_token_labels ?br ?bwd ?V = Inr [(?ws, [1, 0, 0, 0], ())]"
    by code_simp
  note inst = spans_to_token_labels_no_exception [of ?fwd ?V ?br ?bwd]
  have h1: "?fwd \<noteq> [] \<and> ''O'' \<in> strip_bio ` snd ` set ?V
      \<and> (\<forall>(tokens, labels, rest) \<in> set ?fwd.
            set labels \<subseteq> fst ` set ?V
          \<and> (\<forall>tags. map_err (dict_get ?V) labels = Inr tags \<longrightarrow>
                (\<exists>biluo offsets. iob_to_biluo ?br tags = Inr biluo
                   \<and> biluo_tags_to_offsets ?br (Doc ?br tokens) biluo = Inr offsets)))"
  proof (intro conjI ballI)
    show "?fwd \<noteq> []" by simp
    show "''O'' \<in> strip_bio ` snd ` set ?V" by (rule o)
    fix row assume "row \<in> set ?fwd"
    then have row: "row = (?ws, [1, 0, 0, 3], ())" by simp
    have sub: "set [1::nat, 0, 0, 3] \<subseteq> fst ` set ?V" by simp
    have inner: "\<forall>tags. map_err (dict_get ?V) [1, 0, 0, 3] = Inr tags \<longrightarrow>
                (\<exists>biluo offsets. iob_to_biluo ?br tags = Inr biluo
                   \<and> biluo_tags_to_offsets ?br (Doc ?br ?ws) biluo = Inr offsets)"
      unfolding tg using bl off by blast
    show "case row of (tokens, labels, rest) \<Rightarrow>
            set labels \<subseteq> fst ` set ?V
          \<and> (\<forall>tags. map_err (dict_get ?V) labels = Inr tags \<longrightarrow>
                (\<exists>biluo offsets. iob_to_biluo ?br tags = Inr biluo
                   \<and> biluo_tags_to_offsets ?br (Doc ?br tokens) biluo = Inr offsets))"
      unfolding row prod.case using sub inner by blast
  qed
  have h2: "?bwd \<noteq> [] \<and> length ?bwd \<le> 1000
      \<and> (\<forall>(text, str_label, rest) \<in> set ?bwd.
            str_label \<noteq> [] \<and> well_formed_label str_label
          \<and> (bio_tags_of ?br (nlp ?br text) (spec_spans text str_label) = Inl ValueError
             \<or> (\<exists>tags. bio_tags_of ?br (nlp ?br text) (spec_spans text str_label) = Inr tags
                    \<and> set tags \<subseteq> snd ` set ?V)))"
  proof (intro conjI ballI)
    show "?bwd \<noteq> []" by simp
    show "length ?bwd \<le> 1000" by simp
    fix row assume "row \<in> set ?bwd"
    then consider "row = (''John lives in Berlin'', ''PER -> John, Paris'', ())"
      | "row = (''Anna sings'', ''PER -> Anna, Anna'', ())"
      by auto
    then show "case row of (text, str_label, rest) \<Rightarrow>
            str_label \<noteq> [] \<and> well_formed_label str_label
          \<and> (bio_tags_of ?br (nlp ?br text) (spec_spans text str_label) = Inl ValueError
             \<or> (\<exists>tags. bio_tags_of ?br (nlp ?br text) (spec_spans text str_label) = Inr tags
                    \<and> set tags \<subseteq> snd ` set ?V))"
    proof cases
      case 1
      have ne: "''PER -> John, Paris'' \<noteq> []" by simp
      have sub: "set [''B-PER'', ''O'', ''O'', ''O''] \<subseteq> snd ` set ?V" by simp
      show ?thesis unfolding 1 prod.case using ne wf1 bt1 sub by blast
    next
      case 2
      have ne: "''PER -> Anna, Anna'' \<noteq> []" by simp
      show ?thesis unfolding 2 prod.case using ne wf2 bt2 by blast
    qed
  qed
  from inst [THEN conjunct1, rule_format, OF h1]
  have f: "\<exists>out. token_labels_to_spans ?br ?fwd ?V = Inr out" .
  from inst [THEN conjunct2, rule_format, OF h2]
  have b: "\<exists>out. spans_to_token_labels ?br ?bwd ?V = Inr out" .
  from tg bl off f wf1 bt1 wf2 bt2 b res show ?thesis by blast
qed

section \<open>Forward and back\<close>

lemma str_split_absent: "find_sub sep s = None \<Longrightarrow> str_split sep s = [s]"
  by (simp add: str_split.simps)

lemma str_split_once:
  "find_sub sep s = Some i \<Longrightarrow> sep \<noteq> [] \<Longrightarrow>
   find_sub sep (drop (i + length sep) s) = None \<Longrightarrow>
   str_split sep s = [take i s, drop (i + length sep) s]"
  by (subst str_split.simps) (simp add: str_split_absent)

lemma index_where_Some:
  "index_where P xs = Some i \<Longrightarrow> i < length xs \<and> P (xs ! i)"
proof (induction xs arbitrary: i)
  case Nil
  then show ?case by simp
next
  case (Cons x xs)
  then show ?case by (cases i) (auto split: if_splits)
qed

lemma spec_label_string_single:
  "spec_label_string text [(s, e, T)] = T @ '' -> '' @ slice text s e"
  by (simp add: spec_label_string_def)

lemma length_slice: "s \<le> e \<Longrightarrow> e \<le> length t \<Longrightarrow> length (slice t s e) = e - s"
  by (simp add: slice_def)

lemma collect_spans_single:
  assumes label: "label = T @ '' -> '' @ ent"
    and one_line: "find_sub LABEL_SEPARATOR label = None"
    and one_arrow: "find_sub LABEL2ENTITY_SEPARATOR label = Some (length T + 1)"
      "find_sub LABEL2ENTITY_SEPARATOR ('' '' @ ent) = None"
    and one_entity: "find_sub ENTITY_SEPARATOR ('' '' @ ent) = None"
    and trimmed: "str_strip (T @ '' '') = T" "str_strip ('' '' @ ent) = ent"
    and unique: "find_sub (str_lower ent) (str_lower text) = Some s"
  shows "collect_spans text label = Inr [(s, s + length ent, T)]"
proof -
  have lines: "str_split LABEL_SEPARATOR label = [label]"
    using one_line by (rule str_split_absent)
  have tk: "take (length T + 1) label = T @ '' ''"
    by (simp add: label)
  have dr: "drop (length T + 1 + length LABEL2ENTITY_SEPARATOR) label = '' '' @ ent"
    by (simp add: label LABEL2ENTITY_SEPARATOR_def)
  have "str_split LABEL2ENTITY_SEPARATOR label =
          [take (length T + 1) label,
           drop (length T + 1 + length LABEL2ENTITY_SEPARATOR) label]"
    using one_arrow(1)
  proof (rule str_split_once)
    show "LABEL2ENTITY_SEPARATOR \<noteq> []" by (simp add: LABEL2ENTITY_SEPARATOR_def)
    show "find_sub LABEL2ENTITY_SEPARATOR
            (drop (length T + 1 + length LABEL2ENTITY_SEPARATOR) label) = None"
      unfolding dr by (rule one_arrow(2))
  qed
  then have parts: "str_split LABEL2ENTITY_SEPARATOR label = [T @ '' '', '' '' @ ent]"
    unfolding tk dr .
  have ents: "str_split ENTITY_SEPARATOR ('' '' @ ent) = ['' '' @ ent]"
    using one_entity by (rule str_split_absent)
  have "entity_spans text T (str_lower ent) = [(s, s + length ent, T)]"
    using unique by (simp add: entity_spans_def)
  then have "concat (map (entity_spans text (str_strip (T @ '' '')))
                 (map (\<lambda>entity. str_lower (str_strip entity))
                    (str_split ENTITY_SEPARATOR ('' '' @ ent)))) = [(s, s + length ent, T)]"
    using trimmed unfolding ents by simp
  then have "line_spans text label = Inr [(s, s + length ent, T)]"
    unfolding line_spans_def parts by simp
  then show ?thesis
    by (simp add: collect_spans_def lines)
qed

lemma biluo_tag_to_iob_simps:
  "biluo_tag_to_iob ''O'' = ''O''"
  "biluo_tag_to_iob (''B-'' @ T) = ''B-'' @ T"
  "biluo_tag_to_iob (''I-'' @ T) = ''I-'' @ T"
  "biluo_tag_to_iob (''U-'' @ T) = ''B-'' @ T"
  "biluo_tag_to_iob (''L-'' @ T) = ''I-'' @ T"
  by (simp_all add: biluo_tag_to_iob_def)

lemma bio_tags_of_single:
  assumes a: "index_where (\<lambda>(idx, w). idx = s) toks = Some a"
    and b: "index_where (\<lambda>(idx, w). idx + length w = e) toks = Some b"
    and ab: "a \<le> b"
  shows "bio_tags_of (spec_bridge tok) (text, toks) [(s, e, T)]
           = Inr (span_tags (length toks) a b T)"
proof -
  from index_where_Some [OF a] index_where_Some [OF b]
  have lt: "a < length toks" "b < length toks" by simp_all
  let ?n = "length toks"
  let ?O = "replicate ?n ''O''"
  show ?thesis
  proof (cases "a = b")
    case True
    have "biluo_to_iob_model (?O[a := ''U-'' @ T]) = span_tags ?n a a T"
    proof (rule nth_equalityI)
      show "length (biluo_to_iob_model (?O[a := ''U-'' @ T])) = length (span_tags ?n a a T)"
        by (simp add: biluo_to_iob_model_def span_tags_def)
      fix i assume "i < length (biluo_to_iob_model (?O[a := ''U-'' @ T]))"
      then have i: "i < ?n" by (simp add: biluo_to_iob_model_def)
      show "biluo_to_iob_model (?O[a := ''U-'' @ T]) ! i = span_tags ?n a a T ! i"
      proof (cases "i = a")
        case True
        with i show ?thesis
          by (simp add: biluo_to_iob_model_def span_tags_def biluo_tag_to_iob_simps
              del: append.simps)
      next
        case False
        with i show ?thesis
          by (simp add: biluo_to_iob_model_def span_tags_def biluo_tag_to_iob_simps
              del: append.simps)
      qed
    qed
    moreover have "apply_span toks ?O (s, e, T) = Inr (?O[a := ''U-'' @ T])"
      using True a b by (simp add: apply_span_def)
    ultimately show ?thesis
      using True
      by (simp add: bio_tags_of_def spec_bridge_def offsets_to_biluo_tags_model_def)
  next
    case False
    with ab have less: "a < b" by simp
    let ?f = "\<lambda>i. if i = a then ''B-'' @ T
                      else if i = b then ''L-'' @ T
                      else if a < i \<and> i < b then ''I-'' @ T
                      else ?O ! i"
    have "biluo_to_iob_model (map ?f [0..<length ?O]) = span_tags ?n a b T"
    proof (rule nth_equalityI)
      show "length (biluo_to_iob_model (map ?f [0..<length ?O])) = length (span_tags ?n a b T)"
        by (simp add: biluo_to_iob_model_def span_tags_def)
      fix i assume "i < length (biluo_to_iob_model (map ?f [0..<length ?O]))"
      then have i: "i < ?n" by (simp add: biluo_to_iob_model_def)
      consider "i = a" | "i = b" | "a < i" "i < b" | "i < a" | "b < i"
        by linarith
      then show "biluo_to_iob_model (map ?f [0..<length ?O]) ! i = span_tags ?n a b T ! i"
      proof cases
        case 1
        with i less show ?thesis
          by (simp add: biluo_to_iob_model_def span_tags_def biluo_tag_to_iob_simps
              del: append.simps)
      next
        case 2
        with i less show ?thesis
          by (simp add: biluo_to_iob_model_def span_tags_def biluo_tag_to_iob_simps
              del: append.simps)
      next
        case 3
        with i less show ?thesis
          by (simp add: biluo_to_iob_model_def span_tags_def biluo_tag_to_iob_simps
              del: append.simps)
      next
        case 4
        with i less show ?thesis
          by (simp add: biluo_to_iob_model_def span_tags_def biluo_tag_to_iob_simps
              del: append.simps)
      next
        case 5
        with i less show ?thesis
          by (simp add: biluo_to_iob_model_def span_tags_def biluo_tag_to_iob_simps
              del: append.simps)
      qed
    qed
    moreover have "apply_span toks ?O (s, e, T) = Inr (map ?f [0..<length ?O])"
      using False less a b by (simp add: apply_span_def)
    ultimately show ?thesis
      by (simp add: bio_tags_of_def spec_bridge_def offsets_to_biluo_tags_model_def)
  qed
qed

lemma fold_label2id_Some:
  "fold (\<lambda>(k, v) label2id. label2id(v \<mapsto> k)) xs m tag = Some k \<Longrightarrow>
   (k, tag) \<in> set xs \<or> m tag = Some k"
proof (induction xs arbitrary: m)
  case Nil
  then show ?case by simp
next
  case (Cons x xs)
  obtain k' v' where x: "x = (k', v')" by (cases x)
  from Cons.prems have "fold (\<lambda>(k, v) label2id. label2id(v \<mapsto> k)) xs (m(v' \<mapsto> k')) tag = Some k"
    by (simp only: x fold_simps comp_apply case_prod_conv)
  from Cons.IH [OF this] show ?case
    by (auto simp: x split: if_splits)
qed

lemma label2id_of_inverse:
  assumes "distinct (map fst id2label)" and "tag \<in> snd ` set id2label"
  shows "\<exists>k. label2id_of id2label tag = Some k \<and> dict_get id2label k = Inr tag"
proof -
  from assms(2) have "tag \<in> dom (label2id_of id2label)"
    by (simp add: dom_label2id_of)
  then obtain k where k: "label2id_of id2label tag = Some k" by auto
  then have "(k, tag) \<in> set id2label"
    using fold_label2id_Some [of id2label Map.empty tag k] by (simp add: label2id_of_def)
  with assms(1) have "map_of id2label k = Some tag" by simp
  with k show ?thesis by (simp add: dict_get_def)
qed

lemma tags_to_ids:
  assumes "distinct (map fst id2label)" and "set tags \<subseteq> snd ` set id2label"
  shows "\<exists>ids. map_err (map_get (label2id_of id2label)) tags = Inr ids
           \<and> map_err (dict_get id2label) ids = Inr tags"
  using assms(2)
proof (induction tags)
  case Nil
  then show ?case by simp
next
  case (Cons tag tags)
  then obtain ids where "map_err (map_get (label2id_of id2label)) tags = Inr ids"
    "map_err (dict_get id2label) ids = Inr tags" by auto
  moreover from label2id_of_inverse [OF assms(1), of tag] Cons.prems
  obtain k where "label2id_of id2label tag = Some k" "dict_get id2label k = Inr tag"
    by auto
  moreover from this have "map_get (label2id_of id2label) tag = Inr k"
    by (simp add: map_get_def)
  ultimately show ?case
    by (intro exI [of _ "k # ids"]) simp
qed

lemma set_span_tags: "set (span_tags n a b T) \<subseteq> {''O'', ''B-'' @ T, ''I-'' @ T}"
  by (auto simp: span_tags_def)

text \<open>
  C2. Take an example in which the tag-scheme library finds one entity \<open>(s, e, T)\<close>, and
  let the forward converter turn it into the text and the label string
  \<open>T -> entity text\<close>. Suppose the example is simple: the separators occur in the label
  string only where the converter wrote them, the type and the entity text carry no
  surrounding whitespace, the entity text occurs in the text, case ignored, first at
  \<open>s\<close>, a token of the new tokenization starts at \<open>s\<close> and a token ends at \<open>e\<close>, and
  the vocabulary has distinct ids and holds \<open>O\<close>, \<open>B-T\<close> and \<open>I-T\<close>. Then the backward
  converter returns the tokens of the new tokenization with tag ids that stand for \<open>B-T\<close>
  on the token that starts at \<open>s\<close>, \<open>I-T\<close> on the tokens after it up to the token that
  ends at \<open>e\<close>, and \<open>O\<close> elsewhere: the same entity type on a token span that covers
  the same characters. The tokenizer is any function; the alignment of spans to tokens
  is the model of the library.
\<close>

theorem round_trip_single_entity:
  assumes fwd: "token_labels_to_spans (spec_bridge tok) [(ws, ls, r)] id2label
                  = Inr ([(text, label, r)], opts)"
    and tags: "map_err (dict_get id2label) ls = Inr bio_tags"
    and single: "biluo_tags_to_offsets_model (Doc_model ws) (iob_to_biluo_model bio_tags)
                  = Inr [(s, e, T)]"
    and range: "s \<le> e" "e \<le> length text"
    and vocab: "distinct (map fst id2label)"
      "{''O'', ''B-'' @ T, ''I-'' @ T} \<subseteq> snd ` set id2label"
    and one_line: "find_sub LABEL_SEPARATOR label = None"
    and one_arrow: "find_sub LABEL2ENTITY_SEPARATOR label = Some (length T + 1)"
      "find_sub LABEL2ENTITY_SEPARATOR ('' '' @ slice text s e) = None"
    and one_entity: "find_sub ENTITY_SEPARATOR ('' '' @ slice text s e) = None"
    and trimmed: "str_strip (T @ '' '') = T" "str_strip ('' '' @ slice text s e) = slice text s e"
    and unique: "find_sub (str_lower (slice text s e)) (str_lower text) = Some s"
    and aligned: "index_where (\<lambda>(idx, w). idx = s) (tok text) = Some a"
      "index_where (\<lambda>(idx, w). idx + length w = e) (tok text) = Some b"
      "a \<le> b"
  shows "\<exists>ids. spans_to_token_labels (spec_bridge tok) [(text, label, r)] id2label
                 = Inr [(map snd (tok text), ids, r)]
           \<and> map_err (dict_get id2label) ids = Inr (span_tags (length (tok text)) a b T)
           \<and> b < length (tok text)
           \<and> fst (tok text ! a) = s
           \<and> fst (tok text ! b) + length (snd (tok text ! b)) = e
           \<and> label = T @ '' -> '' @ slice text s e"
proof -
  let ?br = "spec_bridge tok"
  let ?ent = "slice text s e"
  let ?toks = "tok text"
  let ?l2i = "label2id_of id2label"
  from fwd have cb: "labels_to_spans ?br id2label (ws, ls) = Inr (text, label)"
    by (auto simp: token_labels_to_spans_def split: sum.splits)
  from labels_to_spans_Inr [OF cb] tags single
  have label: "label = T @ '' -> '' @ ?ent"
    by (auto simp: spec_bridge_def spec_label_string_single)
  from range have len: "s + length ?ent = e"
    by (simp add: length_slice)
  from collect_spans_single [OF label one_line one_arrow one_entity trimmed unique]
  have spans: "collect_spans text label = Inr [(s, e, T)]"
    by (simp add: len)
  have nlp: "nlp ?br text = (text, ?toks)"
    by (simp add: spec_bridge_def)
  from bio_tags_of_single [OF aligned, of tok "text" T]
  have bt: "bio_tags_of ?br (nlp ?br text) [(s, e, T)] = Inr (span_tags (length ?toks) a b T)"
    by (simp add: nlp)
  from index_where_Some [OF aligned(1)] index_where_Some [OF aligned(2)]
  have a: "a < length ?toks" "fst (?toks ! a) = s"
    and b: "b < length ?toks" "fst (?toks ! b) + length (snd (?toks ! b)) = e"
    by (auto simp: case_prod_beta)
  have words: "words_of ?br (nlp ?br text) = map snd ?toks"
    by (simp add: spec_bridge_def)
  from convert_example_tags [OF spans bt]
  have conv: "convert_example ?br text label = Inr (map snd ?toks, span_tags (length ?toks) a b T)"
    by (simp add: words)
  from set_span_tags [of "length ?toks" a b T] vocab(2)
  have "set (span_tags (length ?toks) a b T) \<subseteq> snd ` set id2label"
    by blast
  from tags_to_ids [OF vocab(1) this] obtain ids where
    ids: "map_err (map_get ?l2i) (span_tags (length ?toks) a b T) = Inr ids"
    and decoded: "map_err (dict_get id2label) ids = Inr (span_tags (length ?toks) a b T)"
    by blast
  have nonempty: "label \<noteq> []"
    by (simp add: label)
  from a have toks: "map snd ?toks \<noteq> []"
    by auto
  have "spans_to_token_labels ?br [(text, label, r)] id2label = Inr [(map snd ?toks, ids, r)]"
    using spans_to_token_labels_single [OF nonempty conv ids] toks
    by simp
  with decoded a b label show ?thesis
    by blast
qed

theorem round_trip_single_entity_witness:
  "token_labels_to_spans (spec_bridge space_tokenizer)
       [([''Anna'', ''met'', ''John'', ''Smith'', ''today''], [0, 0, 1, 2, 0], ())]
       [(0::nat, ''O''), (1, ''B-PER''), (2, ''I-PER'')]
     = Inr ([(''Anna met John Smith today'', ''PER -> John Smith'', ())], [''PER''])
   \<and> map_err (dict_get [(0::nat, ''O''), (1, ''B-PER''), (2, ''I-PER'')]) [0, 0, 1, 2, 0]
     = Inr [''O'', ''O'', ''B-PER'', ''I-PER'', ''O'']
   \<and> (\<exists>ids. spans_to_token_labels (spec_bridge space_tokenizer)
                [(''Anna met John Smith today'', ''PER -> John Smith'', ())]
                [(0::nat, ''O''), (1, ''B-PER''), (2, ''I-PER'')]
              = Inr [([''Anna'', ''met'', ''John'', ''Smith'', ''today''], ids, ())]
          \<and> map_err (dict_get [(0::nat, ''O''), (1, ''B-PER''), (2, ''I-PER'')]) ids
              = Inr [''O'', ''O'', ''B-PER'', ''I-PER'', ''O''])"
proof -
  let ?br = "spec_bridge space_tokenizer"
  let ?ws = "[''Anna'', ''met'', ''John'', ''Smith'', ''today'']"
  let ?ls = "[0::nat, 0, 1, 2, 0]"
  let ?v = "[(0::nat, ''O''), (1, ''B-PER''), (2, ''I-PER'')]"
  let ?text = "''Anna met John Smith today''"
  let ?label = "''PER -> John Smith''"
  have sl: "slice ?text 9 19 = ''John Smith''"
    by (simp add: slice_def)
  have tk: "space_tokenizer ?text
              = [(0, ''Anna''), (5, ''met''), (9, ''John''), (14, ''Smith''), (20, ''today'')]"
    by (simp add: space_tokenizer_def)
  have fwd: "token_labels_to_spans ?br [(?ws, ?ls, ())] ?v = Inr ([(?text, ?label, ())], [''PER''])"
    by (simp add: token_labels_to_spans_def label_options_of_def strip_bio_def
        labels_to_spans_def dict_get_def spec_bridge_def Doc_model_def
        biluo_tags_to_offsets_model_def group_spans_def format_spans_def slice_def
        LABEL_SEPARATOR_def LABEL2ENTITY_SEPARATOR_def ENTITY_SEPARATOR_def)
  have tags: "map_err (dict_get ?v) ?ls = Inr [''O'', ''O'', ''B-PER'', ''I-PER'', ''O'']"
    by (simp add: dict_get_def)
  have single: "biluo_tags_to_offsets_model (Doc_model ?ws)
                  (iob_to_biluo_model [''O'', ''O'', ''B-PER'', ''I-PER'', ''O''])
                = Inr [(9, 19, ''PER'')]"
    by (simp add: biluo_tags_to_offsets_model_def Doc_model_def)
  have "\<exists>ids. spans_to_token_labels ?br [(?text, ?label, ())] ?v
                 = Inr [(map snd (space_tokenizer ?text), ids, ())]
           \<and> map_err (dict_get ?v) ids = Inr (span_tags (length (space_tokenizer ?text)) 2 3 ''PER'')
           \<and> 3 < length (space_tokenizer ?text)
           \<and> fst (space_tokenizer ?text ! 2) = 9
           \<and> fst (space_tokenizer ?text ! 3) + length (snd (space_tokenizer ?text ! 3)) = 19
           \<and> ?label = ''PER'' @ '' -> '' @ slice ?text 9 19"
  proof (rule round_trip_single_entity [OF fwd tags single])
    show "(9::nat) \<le> 19" by simp
    show "19 \<le> length ?text" by simp
    show "distinct (map fst ?v)" by simp
    show "{''O'', ''B-'' @ ''PER'', ''I-'' @ ''PER''} \<subseteq> snd ` set ?v" by simp
    show "find_sub LABEL_SEPARATOR ?label = None"
      by (simp add: LABEL_SEPARATOR_def)
    show "find_sub LABEL2ENTITY_SEPARATOR ?label = Some (length ''PER'' + 1)"
      by (simp add: LABEL2ENTITY_SEPARATOR_def)
    show "find_sub LABEL2ENTITY_SEPARATOR ('' '' @ slice ?text 9 19) = None"
      unfolding sl by (simp add: LABEL2ENTITY_SEPARATOR_def)
    show "find_sub ENTITY_SEPARATOR ('' '' @ slice ?text 9 19) = None"
      unfolding sl by (simp add: ENTITY_SEPARATOR_def)
    show "str_strip (''PER'' @ '' '') = ''PER''"
      by (simp add: str_strip_def is_space_def)
    show "str_strip ('' '' @ slice ?text 9 19) = slice ?text 9 19"
      unfolding sl by (simp add: str_strip_def is_space_def)
    show "find_sub (str_lower (slice ?text 9 19)) (str_lower ?text) = Some 9"
      unfolding sl by (simp add: str_lower_def lower_char_def)
    show "index_where (\<lambda>(idx, w). idx = 9) (space_tokenizer ?text) = Some 2"
      unfolding tk by simp
    show "index_where (\<lambda>(idx, w). idx + length w = 19) (space_tokenizer ?text) = Some 3"
      unfolding tk by simp
    show "(2::nat) \<le> 3" by simp
  qed
  then obtain ids where
    r: "spans_to_token_labels ?br [(?text, ?label, ())] ?v
          = Inr [(map snd (space_tokenizer ?text), ids, ())]"
    and decoded: "map_err (dict_get ?v) ids
          = Inr (span_tags (length (space_tokenizer ?text)) 2 3 ''PER'')"
    by blast
  have "span_tags (length (space_tokenizer ?text)) 2 3 ''PER''
          = [''O'', ''O'', ''B-PER'', ''I-PER'', ''O'']"
    unfolding tk by (simp add: span_tags_def upt_rec)
  with r decoded have "spans_to_token_labels ?br [(?text, ?label, ())] ?v = Inr [(?ws, ids, ())]
      \<and> map_err (dict_get ?v) ids = Inr [''O'', ''O'', ''B-PER'', ''I-PER'', ''O'']"
    by (simp add: tk)
  with fwd tags show ?thesis by blast
qed

end
